theory Spec2Isabelle
  imports Main
begin

section \<open>Text and JSON values\<close>

text \<open>
  Python text is modelled as \<^typ>\<open>string\<close>; a character stands for a code point below 256.
  A parsed JSON document is a \<open>json\<close> value.  A Python \<open>dict\<close> keeps its keys in
  insertion order and has no duplicate key, so it is an association list built with
  \<open>dict_set\<close>.  Floating-point numbers, code points from 256 on and integers beyond the
  interpreter's digit limit are outside this model: where the input needs one of them the
  model returns \<open>OutsideModel\<close> and makes no statement.
\<close>

datatype json =
    JNull
  | JBool bool
  | JInt int
  | JStr string
  | JArr "json list"
  | JObj "(string \<times> json) list"

datatype pyerr =
    JSONDecodeError | TypeError | AttributeError | LibraryError | OutsideModel | FuelExhausted

text \<open>\<open>bool(x)\<close>: what \<open>if x:\<close> and \<open>not x\<close> test.\<close>

fun truthy :: "json \<Rightarrow> bool" where
  "truthy JNull = False"
| "truthy (JBool b) = b"
| "truthy (JInt n) = (n \<noteq> 0)"
| "truthy (JStr s) = (s \<noteq> [])"
| "truthy (JArr xs) = (xs \<noteq> [])"
| "truthy (JObj kvs) = (kvs \<noteq> [])"

text \<open>\<open>d[k] = v\<close>: an existing key keeps its position and takes the new value.\<close>

fun dict_set :: "(string \<times> json) list \<Rightarrow> string \<Rightarrow> json \<Rightarrow> (string \<times> json) list" where
  "dict_set [] k v = [(k, v)]"
| "dict_set ((k', v') # d) k v = (if k' = k then (k, v) # d else (k', v') # dict_set d k v)"

text \<open>\<open>dict(pairs)\<close>, as \<open>json.loads\<close> builds an object from its members.\<close>

definition dict_of_pairs :: "(string \<times> json) list \<Rightarrow> (string \<times> json) list" where
  "dict_of_pairs ps = foldl (\<lambda>d (k, v). dict_set d k v) [] ps"

subsection \<open>\<open>str.strip\<close>, \<open>str.replace\<close>, \<open>str.lower\<close>\<close>

text \<open>The characters \<open>str.isspace\<close> accepts, among the code points below 256.\<close>

definition is_space :: "char \<Rightarrow> bool" where
  "is_space c = (let n = (of_char c :: nat) in
     (9 \<le> n \<and> n \<le> 13) \<or> (28 \<le> n \<and> n \<le> 32) \<or> n = 133 \<or> n = 160)"

definition strip :: "string \<Rightarrow> string" where
  "strip s = rev (dropWhile is_space (rev (dropWhile is_space s)))"

text \<open>\<open>s.replace(' ', '_')\<close>.\<close>

definition replace_space :: "string \<Rightarrow> string" where
  "replace_space s = map (\<lambda>c. if c = CHR '' '' then CHR ''_'' else c) s"

text \<open>\<open>s.lower()\<close>: below 256 the upper-case letters are A-Z and 0xC0-0xDE without 0xD7,
  each 32 below its lower-case letter.\<close>

definition lower_char :: "char \<Rightarrow> char" where
  "lower_char c = (let n = (of_char c :: nat) in
     if (65 \<le> n \<and> n \<le> 90) \<or> (192 \<le> n \<and> n \<le> 222 \<and> n \<noteq> 215) then char_of (n + 32) else c)"

definition lower :: "string \<Rightarrow> string" where
  "lower s = map lower_char s"

subsection \<open>\<open>re.sub(r"```(json)?", "", s)\<close>\<close>

text \<open>
  The matches are found left to right and do not overlap; the optional group is greedy,
  so a fence followed by \<open>json\<close> takes the tag with it.  Every match is replaced by the
  empty string.
\<close>

function re_sub :: "string \<Rightarrow> string" where
  "re_sub s =
     (if s = [] then []
      else if take 3 s = ''```'' then
        (if take 4 (drop 3 s) = ''json'' then re_sub (drop 7 s) else re_sub (drop 3 s))
      else hd s # re_sub (tl s))"
  by pat_completeness auto
termination
  by (relation "measure length") auto

declare re_sub.simps [simp del]

subsection \<open>\<open>json.loads\<close>\<close>

text \<open>
  The decoder of the standard library (its C scanner, strict mode): a recursive-descent
  parser.  Each function takes the text at the current position and returns the value
  with the text that follows it.  The recursion is bounded by a fuel argument; \<open>loads\<close>
  sets it to twice the length of the document plus one, which is always enough (lemma
  \<open>loads_never_exhausts_fuel\<close>).
\<close>

type_synonym 'a parsed = "pyerr + ('a \<times> string)"

definition is_ws :: "char \<Rightarrow> bool" where
  "is_ws c = (c = CHR '' '' \<or> c = CHR 0x09 \<or> c = CHR 0x0A \<or> c = CHR 0x0D)"

definition skip_ws :: "string \<Rightarrow> string" where
  "skip_ws s = dropWhile is_ws s"

definition is_digit :: "char \<Rightarrow> bool" where
  "is_digit c = (let n = (of_char c :: nat) in 48 \<le> n \<and> n \<le> 57)"

definition digit_val :: "char \<Rightarrow> nat" where
  "digit_val c = of_char c - 48"

definition hex_val :: "char \<Rightarrow> nat option" where
  "hex_val c = (let n = (of_char c :: nat) in
     if 48 \<le> n \<and> n \<le> 57 then Some (n - 48)
     else if 97 \<le> n \<and> n \<le> 102 then Some (n - 87)
     else if 65 \<le> n \<and> n \<le> 70 then Some (n - 55)
     else None)"

text \<open>The character after a backslash, other than \<open>u\<close>.\<close>

definition unescape :: "char \<Rightarrow> char option" where
  "unescape e =
     (if e = CHR 0x22 then Some (CHR 0x22)
      else if e = CHR 0x5C then Some (CHR 0x5C)
      else if e = CHR ''/'' then Some (CHR ''/'')
      else if e = CHR ''b'' then Some (CHR 0x08)
      else if e = CHR ''f'' then Some (CHR 0x0C)
      else if e = CHR ''n'' then Some (CHR 0x0A)
      else if e = CHR ''r'' then Some (CHR 0x0D)
      else if e = CHR ''t'' then Some (CHR 0x09)
      else None)"

definition cons_parsed :: "char \<Rightarrow> string parsed \<Rightarrow> string parsed" where
  "cons_parsed c r = (case r of Inl e \<Rightarrow> Inl e | Inr (s, rest) \<Rightarrow> Inr (c # s, rest))"

text \<open>The four hexadecimal digits of a \<open>\uXXXX\<close> escape.\<close>

definition decode_u :: "string \<Rightarrow> pyerr + char" where
  "decode_u ds =
     (case map hex_val ds of
        [Some a, Some b, Some c, Some d] \<Rightarrow>
          (let n = ((a * 16 + b) * 16 + c) * 16 + d in
           if n < 256 then Inr (char_of n) else Inl OutsideModel)
      | _ \<Rightarrow> Inl JSONDecodeError)"

text \<open>\<open>scanstring\<close>, from the character after the opening quote.\<close>

fun scanstring :: "string \<Rightarrow> string parsed" where
  "scanstring [] = Inl JSONDecodeError"
| "scanstring (c # cs) =
     (if c = CHR 0x22 then Inr ([], cs)
      else if c = CHR 0x5C then
        (case cs of
           [] \<Rightarrow> Inl JSONDecodeError
         | e # cs' \<Rightarrow>
             if e = CHR ''u'' then
               (case cs' of
                  h1 # h2 # h3 # h4 # cs'' \<Rightarrow>
                    (case decode_u [h1, h2, h3, h4] of
                       Inl err \<Rightarrow> Inl err
                     | Inr ch \<Rightarrow> cons_parsed ch (scanstring cs''))
                | _ \<Rightarrow> Inl JSONDecodeError)
             else
               (case unescape e of
                  None \<Rightarrow> Inl JSONDecodeError
                | Some ch \<Rightarrow> cons_parsed ch (scanstring cs')))
      else if (of_char c :: nat) < 32 then Inl JSONDecodeError
      else cons_parsed c (scanstring cs))"

text \<open>The decimal value of a digit string, as \<open>int(numstr)\<close> reads it.\<close>

definition digits_val :: "string \<Rightarrow> nat" where
  "digits_val ds = foldl (\<lambda>n c. 10 * n + digit_val c) 0 ds"

text \<open>Whether a fraction or an exponent follows the integer part: then the number is a float.\<close>

definition float_follows :: "string \<Rightarrow> bool" where
  "float_follows s =
     (case s of
        [] \<Rightarrow> False
      | c # cs \<Rightarrow>
          if c = CHR ''.'' then (case cs of [] \<Rightarrow> False | d # _ \<Rightarrow> is_digit d)
          else if c = CHR ''e'' \<or> c = CHR ''E'' then
            (case cs of
               [] \<Rightarrow> False
             | d # ds \<Rightarrow>
                 if d = CHR ''+'' \<or> d = CHR ''-'' then (case ds of [] \<Rightarrow> False | d' # _ \<Rightarrow> is_digit d')
                 else is_digit d)
          else False)"

text \<open>\<open>_match_number\<close>: an optional minus, then \<open>0\<close> or a digit string that does not start
  with \<open>0\<close>.  Since Python 3.11 \<open>int\<close> refuses more than 4300 digits with a \<open>ValueError\<close>.\<close>

definition match_number :: "string \<Rightarrow> json parsed" where
  "match_number s =
     (let neg = (take 1 s = ''-'');
          s1 = (if neg then drop 1 s else s)
      in case s1 of
           [] \<Rightarrow> Inl JSONDecodeError
         | d # ds \<Rightarrow>
             if \<not> is_digit d then Inl JSONDecodeError
             else
               (let digits = (if d = CHR ''0'' then [d] else d # takeWhile is_digit ds);
                    rest = (if d = CHR ''0'' then ds else dropWhile is_digit ds)
                in if float_follows rest \<or> length digits > 4300 then Inl OutsideModel
                   else Inr (JInt (if neg then - int (digits_val digits) else int (digits_val digits)),
                             rest)))"

definition starts_with :: "string \<Rightarrow> string \<Rightarrow> bool" where
  "starts_with p s = (take (length p) s = p)"

fun parse_value :: "nat \<Rightarrow> string \<Rightarrow> json parsed"
  and parse_elems :: "nat \<Rightarrow> string \<Rightarrow> (json list) parsed"
  and parse_members :: "nat \<Rightarrow> string \<Rightarrow> ((string \<times> json) list) parsed"
where
  "parse_value 0 s = Inl FuelExhausted"
| "parse_value (Suc n) s =
     (case s of
        [] \<Rightarrow> Inl JSONDecodeError
      | c # cs \<Rightarrow>
          if c = CHR 0x22 then
            (case scanstring cs of Inl e \<Rightarrow> Inl e | Inr (str, r) \<Rightarrow> Inr (JStr str, r))
          else if c = CHR ''{'' then
            (if starts_with ''}'' (skip_ws cs) then Inr (JObj [], drop 1 (skip_ws cs))
             else (case parse_members n (skip_ws cs) of
                     Inl e \<Rightarrow> Inl e
                   | Inr (ps, r) \<Rightarrow> Inr (JObj (dict_of_pairs ps), r)))
          else if c = CHR ''['' then
            (if starts_with '']'' (skip_ws cs) then Inr (JArr [], drop 1 (skip_ws cs))
             else (case parse_elems n (skip_ws cs) of
                     Inl e \<Rightarrow> Inl e
                   | Inr (vs, r) \<Rightarrow> Inr (JArr vs, r)))
          else if starts_with ''null'' s then Inr (JNull, drop 4 s)
          else if starts_with ''true'' s then Inr (JBool True, drop 4 s)
          else if starts_with ''false'' s then Inr (JBool False, drop 5 s)
          else if starts_with ''NaN'' s \<or> starts_with ''Infinity'' s \<or> starts_with ''-Infinity'' s
            then Inl OutsideModel
          else if c = CHR ''-'' \<or> is_digit c then match_number s
          else Inl JSONDecodeError)"
| "parse_elems 0 s = Inl FuelExhausted"
| "parse_elems (Suc n) s =
     (case parse_value n s of
        Inl e \<Rightarrow> Inl e
      | Inr (v, r) \<Rightarrow>
          (let r1 = skip_ws r in
           if starts_with '']'' r1 then Inr ([v], drop 1 r1)
           else if starts_with '','' r1 then
             (case parse_elems n (skip_ws (drop 1 r1)) of
                Inl e \<Rightarrow> Inl e
              | Inr (vs, r2) \<Rightarrow> Inr (v # vs, r2))
           else Inl JSONDecodeError))"
| "parse_members 0 s = Inl FuelExhausted"
| "parse_members (Suc n) s =
     (if \<not> starts_with [CHR 0x22] s then Inl JSONDecodeError
      else
        (case scanstring (drop 1 s) of
           Inl e \<Rightarrow> Inl e
         | Inr (k, r) \<Rightarrow>
             (let r1 = skip_ws r in
              if \<not> starts_with '':'' r1 then Inl JSONDecodeError
              else
                (case parse_value n (skip_ws (drop 1 r1)) of
                   Inl e \<Rightarrow> Inl e
                 | Inr (v, r2) \<Rightarrow>
                     (let r3 = skip_ws r2 in
                      if starts_with ''}'' r3 then Inr ([(k, v)], drop 1 r3)
                      else if starts_with '','' r3 then
                        (case parse_members n (skip_ws (drop 1 r3)) of
                           Inl e \<Rightarrow> Inl e
                         | Inr (ps, r4) \<Rightarrow> Inr ((k, v) # ps, r4))
                      else Inl JSONDecodeError)))))"

text \<open>\<open>json.loads(s)\<close>: white space, one value, white space, end of the text.\<close>

definition loads :: "string \<Rightarrow> pyerr + json" where
  "loads s =
     (case parse_value (Suc (2 * length s)) (skip_ws s) of
        Inl e \<Rightarrow> Inl e
      | Inr (v, r) \<Rightarrow> if skip_ws r = [] then Inr v else Inl JSONDecodeError)"

subsection \<open>\<open>json.dumps\<close>\<close>

text \<open>
  The encoder with its defaults (\<open>ensure_ascii\<close>): a character outside the printable ASCII
  range, a quote and a backslash are escaped.  Without \<open>indent\<close> the separators are
  \<open>", "\<close> and \<open>": "\<close>; with \<open>indent=k\<close> every item starts on a line of its own, indented
  by \<open>k\<close> spaces for each level, and the item separator is a comma.
\<close>

definition hex_digit :: "nat \<Rightarrow> char" where
  "hex_digit n = (if n < 10 then char_of (48 + n) else char_of (87 + n))"

definition escape_char :: "char \<Rightarrow> string" where
  "escape_char c =
     (if c = CHR 0x22 then [CHR 0x5C, CHR 0x22]
      else if c = CHR 0x5C then [CHR 0x5C, CHR 0x5C]
      else if c = CHR 0x0A then [CHR 0x5C, CHR ''n'']
      else if c = CHR 0x0D then [CHR 0x5C, CHR ''r'']
      else if c = CHR 0x09 then [CHR 0x5C, CHR ''t'']
      else if c = CHR 0x08 then [CHR 0x5C, CHR ''b'']
      else if c = CHR 0x0C then [CHR 0x5C, CHR ''f'']
      else if (of_char c :: nat) < 32 \<or> (of_char c :: nat) > 126 then
        [CHR 0x5C, CHR ''u'', CHR ''0'', CHR ''0'',
         hex_digit ((of_char c :: nat) div 16), hex_digit ((of_char c :: nat) mod 16)]
      else [c])"

definition encode_string :: "string \<Rightarrow> string" where
  "encode_string s = CHR 0x22 # concat (map escape_char s) @ [CHR 0x22]"

function digits_of :: "nat \<Rightarrow> string" where
  "digits_of n = (if n < 10 then [char_of (48 + n)] else digits_of (n div 10) @ [char_of (48 + n mod 10)])"
  by pat_completeness auto
termination
  by (relation "measure id") auto

declare digits_of.simps [simp del]

definition show_int :: "int \<Rightarrow> string" where
  "show_int i = (if i < 0 then CHR ''-'' # digits_of (nat (- i)) else digits_of (nat i))"

text \<open>The line break and indentation before an item at nesting level \<open>lvl\<close>.\<close>

definition newline_indent :: "nat option \<Rightarrow> nat \<Rightarrow> string" where
  "newline_indent ind lvl =
     (case ind of None \<Rightarrow> [] | Some k \<Rightarrow> CHR 0x0A # replicate (k * lvl) (CHR '' ''))"

definition item_separator :: "nat option \<Rightarrow> nat \<Rightarrow> string" where
  "item_separator ind lvl =
     (case ind of None \<Rightarrow> '', '' | Some k \<Rightarrow> '','' @ newline_indent ind lvl)"

fun dumps_at :: "nat option \<Rightarrow> nat \<Rightarrow> json \<Rightarrow> string"
  and dumps_items :: "nat option \<Rightarrow> nat \<Rightarrow> json list \<Rightarrow> string"
  and dumps_members :: "nat option \<Rightarrow> nat \<Rightarrow> (string \<times> json) list \<Rightarrow> string"
where
  "dumps_at ind lvl JNull = ''null''"
| "dumps_at ind lvl (JBool b) = (if b then ''true'' else ''false'')"
| "dumps_at ind lvl (JInt i) = show_int i"
| "dumps_at ind lvl (JStr s) = encode_string s"
| "dumps_at ind lvl (JArr xs) =
     (if xs = [] then ''[]''
      else ''['' @ newline_indent ind (Suc lvl) @ dumps_items ind (Suc lvl) xs
             @ newline_indent ind lvl @ '']'')"
| "dumps_at ind lvl (JObj kvs) =
     (if kvs = [] then ''{}''
      else ''{'' @ newline_indent ind (Suc lvl) @ dumps_members ind (Suc lvl) kvs
             @ newline_indent ind lvl @ ''}'')"
| "dumps_items ind lvl [] = []"
| "dumps_items ind lvl (x # xs) =
     dumps_at ind lvl x @ (if xs = [] then [] else item_separator ind lvl @ dumps_items ind lvl xs)"
| "dumps_members ind lvl [] = []"
| "dumps_members ind lvl (kv # kvs) =
     encode_string (fst kv) @ '': '' @ dumps_at ind lvl (snd kv)
       @ (if kvs = [] then [] else item_separator ind lvl @ dumps_members ind lvl kvs)"

text \<open>\<open>json.dumps(obj)\<close> and \<open>json.dumps(obj, indent=4)\<close>.\<close>

definition dumps :: "json \<Rightarrow> string" where
  "dumps v = dumps_at None 0 v"

definition dumps_indent4 :: "json \<Rightarrow> string" where
  "dumps_indent4 v = dumps_at (Some 4) 0 v"

section \<open>The programs\<close>

text \<open>
  Both entry points (\<open>app.py\<close>, the flat-file variant, and \<open>app2.py\<close>, the indexed-store
  variant) run top to bottom once per upload.  What they read and change is a \<open>world\<close>:
  the files they touch, the collection of the document store, and the sequence of calls
  to external capabilities and of messages to the user interface, in the order they
  happen.  What the libraries answer in one run is an \<open>env\<close>: a library call either returns
  a value or raises.
\<close>

datatype 'a attempt = Raises | Returns 'a

datatype event =
    CallPdfplumber | CallFitz | CallGroq string | CallCollectionQuery
  | InfoUploaded | WarnPdfplumberFailed | WarnFitzFailed | WarnTryingFitz
  | ErrNoTextExtracted | ErrCallingGroq | ErrDecodingJSON
  | SuccessExtracted | ShowJson json | SuccessSaved string | DownloadButton string
  | ErrNoData | ErrFailedToParse | WarnAlreadyExists string | WriteSaved string
  | ErrSavingChroma | WriteQueryResult

record entry =
  entry_id :: string
  document :: string
  metadata_name :: string

record world =
  files :: "string \<rightharpoonup> string"
  collection :: "entry list"
  log :: "event list"

record env =
  pdfplumber_pages :: "(string option attempt) list attempt"
  fitz_pages :: "(string attempt) list attempt"
  groq :: "string \<Rightarrow> string attempt"
  add_existing_raises :: bool
  query_raises :: bool

definition emit :: "event \<Rightarrow> world \<Rightarrow> world" where
  "emit e w = w\<lparr>log := log w @ [e]\<rparr>"

subsection \<open>Text extraction\<close>

text \<open>\<open>"".join(...)\<close> over a generator whose items may raise: the first exception ends it.\<close>

fun join_pages :: "string attempt list \<Rightarrow> string attempt" where
  "join_pages [] = Returns []"
| "join_pages (Raises # ps) = Raises"
| "join_pages (Returns t # ps) =
     (case join_pages ps of Raises \<Rightarrow> Raises | Returns ts \<Rightarrow> Returns (t @ ts))"

text \<open>\<open>page.extract_text() or ""\<close>.\<close>

fun or_empty :: "string option attempt \<Rightarrow> string attempt" where
  "or_empty Raises = Raises"
| "or_empty (Returns None) = Returns []"
| "or_empty (Returns (Some t)) = Returns t"

definition extract_text_with_pdfplumber :: "env \<Rightarrow> world \<Rightarrow> string option \<times> world" where
  "extract_text_with_pdfplumber en w =
     (let w1 = emit CallPdfplumber w in
      case pdfplumber_pages en of
        Raises \<Rightarrow> (None, emit WarnPdfplumberFailed w1)
      | Returns pages \<Rightarrow>
          (case join_pages (map or_empty pages) of
             Raises \<Rightarrow> (None, emit WarnPdfplumberFailed w1)
           | Returns text \<Rightarrow> if strip text \<noteq> [] then (Some text, w1) else (None, w1)))"

definition extract_text_with_fitz :: "env \<Rightarrow> world \<Rightarrow> string option \<times> world" where
  "extract_text_with_fitz en w =
     (let w1 = emit CallFitz w in
      case fitz_pages en of
        Raises \<Rightarrow> (None, emit WarnFitzFailed w1)
      | Returns pages \<Rightarrow>
          (case join_pages pages of
             Raises \<Rightarrow> (None, emit WarnFitzFailed w1)
           | Returns text \<Rightarrow> if strip text \<noteq> [] then (Some text, w1) else (None, w1)))"

subsection \<open>The model call and the normalizer\<close>

definition extract_entities_with_groq :: "env \<Rightarrow> string \<Rightarrow> world \<Rightarrow> string option \<times> world" where
  "extract_entities_with_groq en text w =
     (let w1 = emit (CallGroq text) w in
      case groq en text of
        Raises \<Rightarrow> (None, emit ErrCallingGroq w1)
      | Returns content \<Rightarrow> (Some content, w1))"

text \<open>
  \<open>convert_llm_output_to_dict\<close> catches \<open>json.JSONDecodeError\<close> only.  With \<open>None\<close> for the
  text \<open>re.sub\<close> raises \<open>TypeError\<close>, which leaves the function.  The result \<open>Inr None\<close> is
  Python's \<open>None\<close>.
\<close>

definition convert_llm_output_to_dict ::
  "string option \<Rightarrow> world \<Rightarrow> (pyerr + json option) \<times> world" where
  "convert_llm_output_to_dict llm_output w =
     (case llm_output of
        None \<Rightarrow> (Inl TypeError, w)
      | Some out \<Rightarrow>
          (case loads (strip (re_sub out)) of
             Inl JSONDecodeError \<Rightarrow> (Inr None, emit ErrDecodingJSON w)
           | Inl e \<Rightarrow> (Inl e, w)
           | Inr v \<Rightarrow> (Inr (Some v), w)))"

text \<open>\<open>bool(x)\<close> for a text that may be \<open>None\<close>.\<close>

definition truthy_text :: "string option \<Rightarrow> bool" where
  "truthy_text t = (case t of None \<Rightarrow> False | Some s \<Rightarrow> s \<noteq> [])"

subsection \<open>The flat-file sink (\<open>app.py\<close>)\<close>

text \<open>\<open>resumes.append(data)\<close>: only a list has \<open>append\<close>.\<close>

definition py_append :: "json \<Rightarrow> json \<Rightarrow> pyerr + json" where
  "py_append resumes data =
     (case resumes of JArr xs \<Rightarrow> Inr (JArr (xs @ [data])) | _ \<Rightarrow> Inl AttributeError)"

definition save_to_json :: "json \<Rightarrow> string \<Rightarrow> world \<Rightarrow> (pyerr + unit) \<times> world" where
  "save_to_json data output_path w =
     (let loaded =
            (case files w output_path of
               None \<Rightarrow> Inr (JArr [])
             | Some content \<Rightarrow>
                 (case loads content of
                    Inl JSONDecodeError \<Rightarrow> Inr (JArr [])
                  | Inl e \<Rightarrow> Inl e
                  | Inr v \<Rightarrow> Inr v))
      in case loaded of
           Inl e \<Rightarrow> (Inl e, w)
         | Inr resumes \<Rightarrow>
             (case py_append resumes data of
                Inl e \<Rightarrow> (Inl e, w)
              | Inr resumes' \<Rightarrow>
                  (Inr (),
                   emit (SuccessSaved output_path)
                     (w\<lparr>files := (files w)(output_path \<mapsto> dumps_indent4 resumes')\<rparr>))))"

definition temp_path :: string where
  "temp_path = ''temp_resume.pdf''"

definition default_output_path :: string where
  "default_output_path = ''extracted_resumes.json''"

text \<open>
  The two attempts at the text, lines 95 to 99 of \<open>app.py\<close> (the same in \<open>app2.py\<close>).
\<close>

definition extract_resume_text :: "env \<Rightarrow> world \<Rightarrow> string option \<times> world" where
  "extract_resume_text en w =
     (case extract_text_with_pdfplumber en w of
        (resume_text, w1) \<Rightarrow>
          if \<not> truthy_text resume_text
          then extract_text_with_fitz en (emit WarnTryingFitz w1)
          else (resume_text, w1))"

text \<open>
  The module-level pipeline of \<open>app.py\<close> for one upload.  The first component of the
  result is the exception that ended the script, if one did; the statements after the
  raising one are not executed.
\<close>

definition app_after_text :: "env \<Rightarrow> string option \<Rightarrow> world \<Rightarrow> (pyerr + unit) \<times> world" where
  "app_after_text en resume_text w =
     (case resume_text of
        None \<Rightarrow> (Inr (), emit ErrNoTextExtracted w)
      | Some text \<Rightarrow>
          if \<not> truthy_text (Some text) then (Inr (), emit ErrNoTextExtracted w)
          else
            (case extract_entities_with_groq en text w of
               (extracted_info, w1) \<Rightarrow>
                 (case convert_llm_output_to_dict extracted_info w1 of
                    (Inl e, w2) \<Rightarrow> (Inl e, w2)
                  | (Inr None, w2) \<Rightarrow> (Inr (), w2)
                  | (Inr (Some d), w2) \<Rightarrow>
                      if truthy d then
                        (let w3 = emit (ShowJson d) (emit SuccessExtracted w2)
                         in case save_to_json d default_output_path w3 of
                              (Inl e, w4) \<Rightarrow> (Inl e, w4)
                            | (Inr u, w4) \<Rightarrow>
                                (Inr (), emit (DownloadButton (dumps_indent4 d)) w4))
                      else (Inr (), w2))))"

definition os_remove :: "string \<Rightarrow> world \<Rightarrow> world" where
  "os_remove path w = w\<lparr>files := (files w)(path := None)\<rparr>"

definition app_main :: "env \<Rightarrow> string option \<Rightarrow> world \<Rightarrow> pyerr option \<times> world" where
  "app_main en uploaded_file w =
     (case uploaded_file of
        None \<Rightarrow> (None, w)
      | Some bytes \<Rightarrow>
          (let w1 = emit InfoUploaded w;
               w2 = w1\<lparr>files := (files w1)(temp_path \<mapsto> bytes)\<rparr>
           in case extract_resume_text en w2 of
                (resume_text, w3) \<Rightarrow>
                  (case app_after_text en resume_text w3 of
                     (Inl e, w4) \<Rightarrow> (Some e, w4)
                   | (Inr u, w4) \<Rightarrow> (None, os_remove temp_path w4))))"

subsection \<open>The indexed-store sink (\<open>app2.py\<close>)\<close>

text \<open>
  \<open>collection.peek()\<close> is called without an argument: it returns the first \<open>limit\<close> entries
  of the collection, and the library's default for \<open>limit\<close> is 10.
\<close>

definition peek_ids :: "nat \<Rightarrow> entry list \<Rightarrow> string list" where
  "peek_ids limit c = map entry_id (take limit c)"

definition default_peek_limit :: nat where
  "default_peek_limit = 10"

text \<open>
  \<open>collection.add\<close> with one entry.  The store does not take a second entry under an
  identifier it holds: depending on the library version it raises or ignores the call;
  either way the collection stays as it is.
\<close>

definition collection_add :: "env \<Rightarrow> entry \<Rightarrow> entry list \<Rightarrow> pyerr + entry list" where
  "collection_add en e c =
     (if entry_id e \<in> set (map entry_id c)
      then (if add_existing_raises en then Inl LibraryError else Inr c)
      else Inr (c @ [e]))"

text \<open>\<open>resume_dict.get("name", "Unknown")\<close>: only a dict has \<open>get\<close>.\<close>

definition dict_get_name :: "json \<Rightarrow> pyerr + json" where
  "dict_get_name resume_dict =
     (case resume_dict of
        JObj kvs \<Rightarrow> (case map_of kvs ''name'' of None \<Rightarrow> Inr (JStr ''Unknown'') | Some v \<Rightarrow> Inr v)
      | _ \<Rightarrow> Inl AttributeError)"

text \<open>Line 84: \<open>resume_dict.get("name", "Unknown").replace(' ','_').lower()\<close>; only a
  string has \<open>replace\<close>.\<close>

definition candidate_name :: "json \<Rightarrow> pyerr + string" where
  "candidate_name resume_dict =
     (case dict_get_name resume_dict of
        Inl e \<Rightarrow> Inl e
      | Inr (JStr name) \<Rightarrow> Inr (lower (replace_space name))
      | Inr _ \<Rightarrow> Inl AttributeError)"

text \<open>
  \<open>save_to_chromadb\<close>: the whole body is inside \<open>try ... except Exception\<close>, so it never
  raises.  \<open>limit\<close> is the number of entries \<open>peek\<close> returns.
\<close>

definition save_to_chromadb_body :: "nat \<Rightarrow> env \<Rightarrow> string \<Rightarrow> world \<Rightarrow> (pyerr + unit) \<times> world" where
  "save_to_chromadb_body limit en data w =
     (if data = [] then (Inr (), emit ErrNoData w)
      else
        (case convert_llm_output_to_dict (Some data) w of
           (Inl e, w1) \<Rightarrow> (Inl e, w1)
         | (Inr None, w1) \<Rightarrow> (Inr (), emit ErrFailedToParse w1)
         | (Inr (Some resume_dict), w1) \<Rightarrow>
             if \<not> truthy resume_dict then (Inr (), emit ErrFailedToParse w1)
             else
               (case candidate_name resume_dict of
                  Inl e \<Rightarrow> (Inl e, w1)
                | Inr cand \<Rightarrow>
                    if cand \<in> set (peek_ids limit (collection w1))
                    then (Inr (), emit (WarnAlreadyExists cand) w1)
                    else
                      (case dict_get_name resume_dict of
                         Inr (JStr name) \<Rightarrow>
                           (case collection_add en
                                   \<lparr>entry_id = cand, document = dumps resume_dict,
                                    metadata_name = name\<rparr>
                                   (collection w1) of
                              Inl e \<Rightarrow> (Inl e, w1)
                            | Inr c \<Rightarrow> (Inr (), emit (WriteSaved cand) (w1\<lparr>collection := c\<rparr>)))
                       | _ \<Rightarrow> (Inl AttributeError, w1)))))"

definition save_to_chromadb_limit :: "nat \<Rightarrow> env \<Rightarrow> string \<Rightarrow> world \<Rightarrow> world" where
  "save_to_chromadb_limit limit en data w =
     (case save_to_chromadb_body limit en data w of
        (Inl e, w1) \<Rightarrow> emit ErrSavingChroma w1
      | (Inr u, w1) \<Rightarrow> w1)"

definition save_to_chromadb :: "env \<Rightarrow> string \<Rightarrow> world \<Rightarrow> world" where
  "save_to_chromadb en data w = save_to_chromadb_limit default_peek_limit en data w"

definition chroma_query :: "env \<Rightarrow> world \<Rightarrow> (pyerr + unit) \<times> world" where
  "chroma_query en w =
     (let w1 = emit CallCollectionQuery w in
      if query_raises en then (Inl LibraryError, w1) else (Inr (), w1))"

definition app2_after_text :: "env \<Rightarrow> string option \<Rightarrow> world \<Rightarrow> (pyerr + unit) \<times> world" where
  "app2_after_text en resume_text w =
     (case resume_text of
        None \<Rightarrow> (Inr (), emit ErrNoTextExtracted w)
      | Some text \<Rightarrow>
          if \<not> truthy_text (Some text) then (Inr (), emit ErrNoTextExtracted w)
          else
            (case extract_entities_with_groq en text w of
               (extracted_info, w1) \<Rightarrow>
                 (case extracted_info of
                    None \<Rightarrow> (Inr (), w1)
                  | Some info \<Rightarrow>
                      if \<not> truthy_text (Some info) then (Inr (), w1)
                      else
                        (let w2 = save_to_chromadb en info (emit SuccessExtracted w1)
                         in case chroma_query en w2 of
                              (Inl e, w3) \<Rightarrow> (Inl e, w3)
                            | (Inr u, w3) \<Rightarrow>
                                (Inr (),
                                 emit (DownloadButton (dumps_indent4 (JStr info)))
                                   (emit WriteQueryResult w3))))))"

definition app2_main :: "env \<Rightarrow> string option \<Rightarrow> world \<Rightarrow> pyerr option \<times> world" where
  "app2_main en uploaded_file w =
     (case uploaded_file of
        None \<Rightarrow> (None, w)
      | Some bytes \<Rightarrow>
          (let w1 = emit InfoUploaded w;
               w2 = w1\<lparr>files := (files w1)(temp_path \<mapsto> bytes)\<rparr>
           in case extract_resume_text en w2 of
                (resume_text, w3) \<Rightarrow>
                  (case app2_after_text en resume_text w3 of
                     (Inl e, w4) \<Rightarrow> (Some e, w4)
                   | (Inr u, w4) \<Rightarrow> (None, os_remove temp_path w4))))"

section \<open>Notions used in the statements\<close>

text \<open>What each strategy returns for the staged document; neither depends on the world.\<close>

definition strategy_a :: "env \<Rightarrow> string option" where
  "strategy_a en = fst (extract_text_with_pdfplumber en \<lparr>files = Map.empty, collection = [], log = []\<rparr>)"

definition strategy_b :: "env \<Rightarrow> string option" where
  "strategy_b en = fst (extract_text_with_fitz en \<lparr>files = Map.empty, collection = [], log = []\<rparr>)"

text \<open>\<open>appends S w w'\<close>: from \<open>w\<close> to \<open>w'\<close> the log only grew, by events of \<open>S\<close>.\<close>

definition appends :: "event set \<Rightarrow> world \<Rightarrow> world \<Rightarrow> bool" where
  "appends S w w' \<longleftrightarrow> (\<exists>evs. log w' = log w @ evs \<and> set evs \<subseteq> S)"

text \<open>The events that can follow the two attempts at the text.\<close>

definition after_text_events :: "event set" where
  "after_text_events = - {CallFitz, CallPdfplumber}"

text \<open>Concrete inputs: an empty world, a document without text, and a document with text
  for which the model call raises.\<close>

definition world0 :: world where
  "world0 = \<lparr>files = Map.empty, collection = [], log = []\<rparr>"

definition env_no_text :: env where
  "env_no_text = \<lparr>pdfplumber_pages = Returns [], fitz_pages = Raises, groq = (\<lambda>t. Raises),
     add_existing_raises = False, query_raises = False\<rparr>"

definition env_groq_down :: env where
  "env_groq_down = \<lparr>pdfplumber_pages = Returns [Returns (Some ''John Doe'')], fitz_pages = Raises,
     groq = (\<lambda>t. Raises), add_existing_raises = False, query_raises = False\<rparr>"

text \<open>What a page that did not raise contributes to the text of strategy A.\<close>

fun contribution :: "string option attempt \<Rightarrow> string" where
  "contribution (Returns (Some t)) = t"
| "contribution _ = []"

text \<open>Documents of three pages: one whose second page raises in both libraries, and one
  whose second page has no text for pdfplumber.\<close>

definition env_page_raises :: env where
  "env_page_raises = \<lparr>pdfplumber_pages = Returns [Returns (Some ''a''), Raises, Returns (Some ''b'')],
     fitz_pages = Returns [Returns ''a'', Raises, Returns ''b''], groq = (\<lambda>t. Raises),
     add_existing_raises = False, query_raises = False\<rparr>"


definition env_blank_page :: env where
  "env_blank_page = \<lparr>pdfplumber_pages = Returns [Returns (Some ''a''), Returns None, Returns (Some ''b'')],
     fitz_pages = Returns [Returns ''a'', Raises, Returns ''b''], groq = (\<lambda>t. Raises),
     add_existing_raises = False, query_raises = False\<rparr>"

text \<open>A document with one page of text, and a model that answers \<open>out\<close>.\<close>

definition env_answer :: "string \<Rightarrow> env" where
  "env_answer out = \<lparr>pdfplumber_pages = Returns [Returns (Some ''John Doe'')], fitz_pages = Raises,
     groq = (\<lambda>t. Returns out), add_existing_raises = False, query_raises = False\<rparr>"

text \<open>A collection that holds eleven entries, the last of them under the key \<open>john_doe\<close>,
  and a model answer for a candidate of that name.\<close>

definition entry_of :: "string \<Rightarrow> entry" where
  "entry_of k = \<lparr>entry_id = k, document = ''{}'', metadata_name = k\<rparr>"

definition eleven_ids :: "string list" where
  "eleven_ids = [''a'', ''b'', ''c'', ''d'', ''e'', ''f'', ''g'', ''h'', ''i'', ''j'', ''john_doe'']"

definition world11 :: world where
  "world11 = \<lparr>files = Map.empty, collection = map entry_of eleven_ids, log = []\<rparr>"

definition john_doe_response :: string where
  "john_doe_response = ''{\"name\": \"John Doe\"}''"


fun cost :: "json \<Rightarrow> nat"
  and cost_items :: "json list \<Rightarrow> nat"
  and cost_members :: "(string \<times> json) list \<Rightarrow> nat"
where
  "cost JNull = 1"
| "cost (JBool b) = 1"
| "cost (JInt i) = 1"
| "cost (JStr s) = 1"
| "cost (JArr xs) = Suc (cost_items xs)"
| "cost (JObj kvs) = Suc (cost_members kvs)"
| "cost_items [] = 0"
| "cost_items (x # xs) = Suc (cost x + cost_items xs)"
| "cost_members [] = 0"
| "cost_members (kv # kvs) = Suc (cost (snd kv) + cost_members kvs)"










section \<open>Verified properties\<close>

subsection \<open>The decoder never runs out of fuel\<close>

text \<open>
  Every parser returns a remainder shorter than its input, and with fuel above twice the
  length of the input no parser stops for lack of fuel.  So \<open>loads\<close> is a total model of
  the decoder: its only results outside JSON values and \<open>JSONDecodeError\<close> are the inputs
  the model leaves out on purpose.
\<close>

lemma cons_parsed_rest: "cons_parsed c p = Inr (x, r) \<Longrightarrow> \<exists>y. p = Inr (y, r)"
  by (auto simp: cons_parsed_def split: sum.splits)

lemma cons_parsed_err: "cons_parsed c p = Inl e \<longleftrightarrow> p = Inl e"
  by (auto simp: cons_parsed_def split: sum.splits)

lemma decode_u_err: "decode_u ds \<noteq> Inl FuelExhausted"
  by (simp add: decode_u_def Let_def split: list.split option.split)

lemma scanstring_shorter: "scanstring s = Inr (x, r) \<Longrightarrow> length r < length s"
proof (induction s arbitrary: x rule: length_induct)
  case (1 s)
  have ih: "length r < length t"
    if a: "length t < length s" and b: "cons_parsed c (scanstring t) = Inr (y, r)" for t c y
  proof -
    obtain z where "scanstring t = Inr (z, r)" using b cons_parsed_rest by blast
    then show ?thesis using 1(1) a by blast
  qed
  show ?case
  proof (cases s)
    case Nil
    then show ?thesis using 1(2) by simp
  next
    case (Cons c cs)
    consider (q) "c = CHR 0x22" | (b) "c \<noteq> CHR 0x22" "c = CHR 0x5C" | (o) "c \<noteq> CHR 0x22" "c \<noteq> CHR 0x5C"
      by blast
    then show ?thesis
    proof cases
      case q
      then show ?thesis using 1(2) Cons by simp
    next
      case o
      then have "cons_parsed c (scanstring cs) = Inr (x, r)" using 1(2) Cons by (simp split: if_splits)
      then have "length r < length cs" using Cons by (intro ih) simp_all
      then show ?thesis using Cons by simp
    next
      case b
      then obtain e cs' where cs: "cs = e # cs'" using 1(2) Cons by (cases cs) simp_all
      show ?thesis
      proof (cases "e = CHR ''u''")
        case False
        then obtain ch where "cons_parsed ch (scanstring cs') = Inr (x, r)"
          using 1(2) Cons cs b by (simp split: option.splits)
        then have "length r < length cs'" using Cons cs by (intro ih) simp_all
        then show ?thesis using Cons cs by simp
      next
        case True
        then obtain h1 h2 h3 h4 cs'' where c4: "cs' = h1 # h2 # h3 # h4 # cs''"
          using 1(2) Cons cs b by (simp split: list.splits)
        then obtain ch where "cons_parsed ch (scanstring cs'') = Inr (x, r)"
          using 1(2) Cons cs b True by (simp split: sum.splits)
        then have "length r < length cs''" using Cons cs c4 by (intro ih) simp_all
        then show ?thesis using Cons cs c4 by simp
      qed
    qed
  qed
qed

lemma scanstring_no_exhaust: "scanstring s \<noteq> Inl FuelExhausted"
proof (induction s rule: length_induct)
  case (1 s)
  have ih: "cons_parsed c (scanstring t) \<noteq> Inl FuelExhausted" if "length t < length s" for t c
    using 1 that by (simp add: cons_parsed_err)
  show ?case
  proof (cases s)
    case Nil
    then show ?thesis by simp
  next
    case (Cons c cs)
    have 0: "cons_parsed ch (scanstring cs) \<noteq> Inl FuelExhausted" for ch
      using Cons by (intro ih) simp
    show ?thesis
    proof (cases cs)
      case Nil
      then show ?thesis using Cons by (simp add: cons_parsed_err)
    next
      case c1: (Cons e cs')
      have 1: "cons_parsed ch (scanstring cs') \<noteq> Inl FuelExhausted" for ch
        using Cons c1 by (intro ih) simp
      have 2: "cons_parsed ch (scanstring (drop 4 cs')) \<noteq> Inl FuelExhausted" for ch
        using Cons c1 by (intro ih) simp
      have "scanstring (c # e # cs') \<noteq> Inl FuelExhausted"
        using 0 1 2 c1 decode_u_err
        by (subst scanstring.simps)
           (auto simp del: scanstring.simps split: list.split sum.split option.split)
      then show ?thesis using Cons c1 by simp
    qed
  qed
qed

lemma match_number_shorter:
  assumes "match_number s = Inr (v, r)"
  shows "length r < length s"
proof -
  let ?s1 = "if take 1 s = ''-'' then drop 1 s else s"
  have "\<exists>d ds. ?s1 = d # ds \<and> (r = ds \<or> r = dropWhile is_digit ds)"
    using assms by (cases ?s1) (auto simp: match_number_def Let_def split: if_splits)
  then obtain d ds where ds: "?s1 = d # ds" "r = ds \<or> r = dropWhile is_digit ds" by blast
  have "length (dropWhile is_digit ds) \<le> length ds" by (rule length_dropWhile_le)
  then have "length r \<le> length ds" using ds(2) by auto
  moreover have "length ?s1 \<le> length s" by simp
  ultimately show ?thesis using ds(1) by (simp split: if_splits)
qed

lemma match_number_no_exhaust: "match_number s \<noteq> Inl FuelExhausted"
  by (simp add: match_number_def Let_def split: list.split)


lemma skip_ws_length: "length (skip_ws s) \<le> length s"
  by (simp add: skip_ws_def length_dropWhile_le)

lemma starts_with_drop: "starts_with p s \<Longrightarrow> p \<noteq> [] \<Longrightarrow> length (drop (length p) s) < length s"
  by (cases s) (auto simp: starts_with_def)

lemma parse_shorter_step:
  assumes pe: "\<And>t vs r. parse_elems n t = Inr (vs, r) \<Longrightarrow> length r < length t"
    and pm: "\<And>t ps r. parse_members n t = Inr (ps, r) \<Longrightarrow> length r < length t"
    and v: "parse_value (Suc n) s = Inr (v, r)"
  shows "length r < length s"
proof (cases s)
  case Nil
  then show ?thesis using v by simp
next
  case (Cons c cs)
  have sk: "length (skip_ws cs) \<le> length cs" by (rule skip_ws_length)
  have pe': "length r' < length cs" if "parse_elems n (skip_ws cs) = Inr (vs, r')" for vs r'
    using pe [OF that] sk by simp
  have pm': "length r' < length cs" if "parse_members n (skip_ws cs) = Inr (ps, r')" for ps r'
    using pm [OF that] sk by simp
  have d4: "length (drop 4 s) < length s" "length (drop 5 s) < length s" using Cons by simp_all
  have mn: "length r < length s" if "match_number s = Inr (v, r)"
    using that by (rule match_number_shorter)
  consider (str) "c = CHR 0x22" | (obj) "c \<noteq> CHR 0x22" "c = CHR ''{''"
    | (arr) "c \<noteq> CHR 0x22" "c \<noteq> CHR ''{''" "c = CHR ''[''"
    | (other) "c \<noteq> CHR 0x22" "c \<noteq> CHR ''{''" "c \<noteq> CHR ''[''" by blast
  then show ?thesis
  proof cases
    case str
    then obtain x where "scanstring cs = Inr (x, r)" using v Cons by (simp split: sum.splits prod.splits)
    then have "length r < length cs" by (rule scanstring_shorter)
    then show ?thesis using Cons by simp
  next
    case obj
    show ?thesis
    proof (cases "starts_with ''}'' (skip_ws cs)")
      case True
      then have "r = drop 1 (skip_ws cs)" using v Cons obj by simp
      then show ?thesis using sk Cons by simp
    next
      case False
      then obtain ps where "parse_members n (skip_ws cs) = Inr (ps, r)"
        using v Cons obj by (simp split: sum.splits prod.splits)
      then show ?thesis using pm' Cons by fastforce
    qed
  next
    case arr
    show ?thesis
    proof (cases "starts_with '']'' (skip_ws cs)")
      case True
      then have "r = drop 1 (skip_ws cs)" using v Cons arr by simp
      then show ?thesis using sk Cons by simp
    next
      case False
      then obtain vs where "parse_elems n (skip_ws cs) = Inr (vs, r)"
        using v Cons arr by (simp split: sum.splits prod.splits)
      then show ?thesis using pe' Cons by fastforce
    qed
  next
    case other
    then have "r = drop 4 s \<or> r = drop 5 s \<or> match_number s = Inr (v, r)"
      using v Cons by (simp split: if_splits)
    then show ?thesis using d4 mn by blast
  qed
qed


lemma skip_drop_length: "length (skip_ws (drop 1 (skip_ws s))) \<le> length s"
proof -
  have "length (skip_ws (drop 1 (skip_ws s))) \<le> length (drop 1 (skip_ws s))" by (rule skip_ws_length)
  also have "\<dots> \<le> length (skip_ws s)" by simp
  also have "\<dots> \<le> length s" by (rule skip_ws_length)
  finally show ?thesis .
qed

lemma drop_skip_length: "length (drop 1 (skip_ws s)) \<le> length s"
  using skip_ws_length [of s] by simp

lemma parse_elems_cases:
  assumes "parse_elems (Suc n) s = Inr (vs, r)"
  obtains v r0 where "parse_value n s = Inr (v, r0)" "r = drop 1 (skip_ws r0)"
  | v r0 vs' where "parse_value n s = Inr (v, r0)"
      "parse_elems n (skip_ws (drop 1 (skip_ws r0))) = Inr (vs', r)"
  using assms by (auto simp: Let_def split: sum.splits prod.splits if_splits)

lemma parse_members_cases:
  assumes "parse_members (Suc n) s = Inr (ps, r)"
  obtains k r0 v r2 where "scanstring (drop 1 s) = Inr (k, r0)"
      "parse_value n (skip_ws (drop 1 (skip_ws r0))) = Inr (v, r2)" "r = drop 1 (skip_ws r2)"
  | k r0 v r2 ps' where "scanstring (drop 1 s) = Inr (k, r0)"
      "parse_value n (skip_ws (drop 1 (skip_ws r0))) = Inr (v, r2)"
      "parse_members n (skip_ws (drop 1 (skip_ws r2))) = Inr (ps', r)"
  using assms by (auto simp: Let_def split: sum.splits prod.splits if_splits)

lemma parse_shorter:
  "(\<forall>s v r. parse_value n s = Inr (v, r) \<longrightarrow> length r < length s)
   \<and> (\<forall>s vs r. parse_elems n s = Inr (vs, r) \<longrightarrow> length r < length s)
   \<and> (\<forall>s ps r. parse_members n s = Inr (ps, r) \<longrightarrow> length r < length s)"
proof (induction n)
  case 0
  then show ?case by simp
next
  case (Suc n)
  then have pv: "\<And>t v r. parse_value n t = Inr (v, r) \<Longrightarrow> length r < length t"
    and pe: "\<And>t vs r. parse_elems n t = Inr (vs, r) \<Longrightarrow> length r < length t"
    and pm: "\<And>t ps r. parse_members n t = Inr (ps, r) \<Longrightarrow> length r < length t"
    by blast+
  have 1: "length r < length s" if "parse_value (Suc n) s = Inr (v, r)" for s v r
    using pe pm that by (rule parse_shorter_step)
  have 2: "length r < length s" if "parse_elems (Suc n) s = Inr (vs, r)" for s vs r
    using that
  proof (cases rule: parse_elems_cases)
    case (1 v r0)
    then show ?thesis using pv [OF 1(1)] drop_skip_length [of r0] by simp
  next
    case (2 v r0 vs')
    then show ?thesis using pv [OF 2(1)] pe [OF 2(2)] skip_drop_length [of r0] by simp
  qed
  have 3: "length r < length s" if "parse_members (Suc n) s = Inr (ps, r)" for s ps r
    using that
  proof (cases rule: parse_members_cases)
    case (1 k r0 v r2)
    have "length r0 < length (drop 1 s)" using 1(1) by (rule scanstring_shorter)
    then show ?thesis using 1(3) pv [OF 1(2)] skip_drop_length [of r0] drop_skip_length [of r2] by simp
  next
    case (2 k r0 v r2 ps')
    have "length r0 < length (drop 1 s)" using 2(1) by (rule scanstring_shorter)
    then show ?thesis using pv [OF 2(2)] pm [OF 2(3)] skip_drop_length [of r0] skip_drop_length [of r2]
      by simp
  qed
  show ?case using 1 2 3 by blast
qed


lemma comma_drop_length:
  "starts_with '','' (skip_ws t) \<Longrightarrow> Suc (length (skip_ws (drop 1 (skip_ws t)))) \<le> length t"
proof -
  assume a: "starts_with '','' (skip_ws t)"
  then have "skip_ws t \<noteq> []" by (auto simp: starts_with_def)
  then have "Suc (length (drop 1 (skip_ws t))) = length (skip_ws t)" by (cases "skip_ws t") simp_all
  moreover have "length (skip_ws (drop 1 (skip_ws t))) \<le> length (drop 1 (skip_ws t))"
    by (rule skip_ws_length)
  ultimately show ?thesis using skip_ws_length [of t] by linarith
qed

lemma pv_exhaust_cases:
  assumes "parse_value (Suc n) s = Inl FuelExhausted"
  obtains c cs where "s = c # cs" "parse_members n (skip_ws cs) = Inl FuelExhausted"
  | c cs where "s = c # cs" "parse_elems n (skip_ws cs) = Inl FuelExhausted"
  using assms scanstring_no_exhaust match_number_no_exhaust
  by (cases s) (auto split: sum.splits prod.splits if_splits)

lemma pe_exhaust_cases:
  assumes "parse_elems (Suc n) s = Inl FuelExhausted"
  obtains "parse_value n s = Inl FuelExhausted"
  | v r0 where "parse_value n s = Inr (v, r0)" "starts_with '','' (skip_ws r0)"
      "parse_elems n (skip_ws (drop 1 (skip_ws r0))) = Inl FuelExhausted"
  using assms by (auto simp: Let_def split: sum.splits prod.splits if_splits)

lemma pm_exhaust_cases:
  assumes "parse_members (Suc n) s = Inl FuelExhausted"
  obtains k r0 where "scanstring (drop 1 s) = Inr (k, r0)"
      "parse_value n (skip_ws (drop 1 (skip_ws r0))) = Inl FuelExhausted"
  | k r0 v r2 where "scanstring (drop 1 s) = Inr (k, r0)"
      "parse_value n (skip_ws (drop 1 (skip_ws r0))) = Inr (v, r2)"
      "starts_with '','' (skip_ws r2)"
      "parse_members n (skip_ws (drop 1 (skip_ws r2))) = Inl FuelExhausted"
  using assms scanstring_no_exhaust
  by (auto simp: Let_def split: sum.splits prod.splits if_splits)

lemma parse_fuel_suffices:
  "(\<forall>s. 2 * length s < n \<longrightarrow> parse_value n s \<noteq> Inl FuelExhausted)
   \<and> (\<forall>s. 2 * length s + 1 < n \<longrightarrow> parse_elems n s \<noteq> Inl FuelExhausted)
   \<and> (\<forall>s. 2 * length s + 1 < n \<longrightarrow> parse_members n s \<noteq> Inl FuelExhausted)"
proof (induction n)
  case 0
  then show ?case by simp
next
  case (Suc n)
  then have pv: "\<And>t. 2 * length t < n \<Longrightarrow> parse_value n t \<noteq> Inl FuelExhausted"
    and pe: "\<And>t. 2 * length t + 1 < n \<Longrightarrow> parse_elems n t \<noteq> Inl FuelExhausted"
    and pm: "\<And>t. 2 * length t + 1 < n \<Longrightarrow> parse_members n t \<noteq> Inl FuelExhausted"
    by blast+
  have sh: "\<And>t v r. parse_value n t = Inr (v, r) \<Longrightarrow> length r < length t"
    using parse_shorter [of n] by blast
  have 1: "parse_value (Suc n) s \<noteq> Inl FuelExhausted" if b: "2 * length s < Suc n" for s
  proof
    assume "parse_value (Suc n) s = Inl FuelExhausted"
    then show False
    proof (cases rule: pv_exhaust_cases)
      case (1 c cs)
      have "2 * length (skip_ws cs) + 1 < n" using b 1(1) skip_ws_length [of cs] by simp
      then show False using pm 1(2) by blast
    next
      case (2 c cs)
      have "2 * length (skip_ws cs) + 1 < n" using b 2(1) skip_ws_length [of cs] by simp
      then show False using pe 2(2) by blast
    qed
  qed
  have 2: "parse_elems (Suc n) s \<noteq> Inl FuelExhausted" if b: "2 * length s + 1 < Suc n" for s
  proof
    assume "parse_elems (Suc n) s = Inl FuelExhausted"
    then show False
    proof (cases rule: pe_exhaust_cases)
      case 1
      then show False using pv [of s] b by simp
    next
      case (2 v r0)
      have "2 * length (skip_ws (drop 1 (skip_ws r0))) + 1 < n"
        using b sh [OF 2(1)] comma_drop_length [OF 2(2)] by linarith
      then show False using pe 2(3) by blast
    qed
  qed
  have 3: "parse_members (Suc n) s \<noteq> Inl FuelExhausted" if b: "2 * length s + 1 < Suc n" for s
  proof
    assume "parse_members (Suc n) s = Inl FuelExhausted"
    then show False
    proof (cases rule: pm_exhaust_cases)
      case (1 k r0)
      have "length r0 < length (drop 1 s)" using 1(1) by (rule scanstring_shorter)
      then have "2 * length (skip_ws (drop 1 (skip_ws r0))) < n"
        using b skip_drop_length [of r0] by simp
      then show False using pv 1(2) by blast
    next
      case (2 k r0 v r2)
      have "length r0 < length (drop 1 s)" using 2(1) by (rule scanstring_shorter)
      moreover have "length r2 < length (skip_ws (drop 1 (skip_ws r0)))" using 2(2) by (rule sh)
      ultimately have "2 * length (skip_ws (drop 1 (skip_ws r2))) + 1 < n"
        using b skip_drop_length [of r0] comma_drop_length [OF 2(3)] by simp
      then show False using pm 2(4) by blast
    qed
  qed
  show ?case using 1 2 3 by blast
qed

lemma loads_never_exhausts_fuel: "loads s \<noteq> Inl FuelExhausted"
proof -
  have "2 * length (skip_ws s) < Suc (2 * length s)" using skip_ws_length [of s] by simp
  then have "parse_value (Suc (2 * length s)) (skip_ws s) \<noteq> Inl FuelExhausted"
    using parse_fuel_suffices [of "Suc (2 * length s)"] by blast
  then show ?thesis by (auto simp: loads_def split: sum.splits prod.splits)
qed

subsection \<open>Events of the pipelines\<close>


lemma emit_simps [simp]:
  "log (emit e w) = log w @ [e]" "files (emit e w) = files w" "collection (emit e w) = collection w"
  by (simp_all add: emit_def)

lemma pdfplumber_effect:
  "\<exists>evs \<in> {[], [WarnPdfplumberFailed]}.
     extract_text_with_pdfplumber en w = (strategy_a en, w\<lparr>log := log w @ CallPdfplumber # evs\<rparr>)"
  by (simp add: extract_text_with_pdfplumber_def strategy_a_def emit_def Let_def
        split: attempt.split)

lemma fitz_effect:
  "\<exists>evs \<in> {[], [WarnFitzFailed]}.
     extract_text_with_fitz en w = (strategy_b en, w\<lparr>log := log w @ CallFitz # evs\<rparr>)"
  by (simp add: extract_text_with_fitz_def strategy_b_def emit_def Let_def
        split: attempt.split)

lemma strategy_a_truthy: "truthy_text (strategy_a en) \<longleftrightarrow> strategy_a en \<noteq> None"
  by (auto simp: strategy_a_def extract_text_with_pdfplumber_def truthy_text_def Let_def strip_def
        split: attempt.splits option.splits)

lemma strategy_b_truthy: "truthy_text (strategy_b en) \<longleftrightarrow> strategy_b en \<noteq> None"
  by (auto simp: strategy_b_def extract_text_with_fitz_def truthy_text_def Let_def strip_def
        split: attempt.splits option.splits)


lemma appends_refl [simp]: "appends S w w"
  by (simp add: appends_def)

lemma appends_emit: "appends S w w' \<Longrightarrow> e \<in> S \<Longrightarrow> appends S w (emit e w')"
  by (auto simp: appends_def)

lemma appends_files [simp]: "appends S w (w'\<lparr>files := f\<rparr>) = appends S w w'"
  by (simp add: appends_def)

lemma appends_collection [simp]: "appends S w (w'\<lparr>collection := c\<rparr>) = appends S w w'"
  by (simp add: appends_def)

lemma appends_trans: "appends S w w' \<Longrightarrow> appends S w' w'' \<Longrightarrow> appends S w w''"
  by (auto simp: appends_def)

lemma groq_appends:
  "CallGroq text \<in> S \<Longrightarrow> ErrCallingGroq \<in> S \<Longrightarrow>
   appends S w (snd (extract_entities_with_groq en text w))"
  by (auto simp: extract_entities_with_groq_def Let_def intro!: appends_emit split: attempt.split)

lemma convert_appends:
  "ErrDecodingJSON \<in> S \<Longrightarrow> appends S w (snd (convert_llm_output_to_dict out w))"
  by (auto simp: convert_llm_output_to_dict_def intro!: appends_emit
        split: option.split sum.split pyerr.split)

lemma save_to_json_appends:
  "SuccessSaved p \<in> S \<Longrightarrow> appends S w (snd (save_to_json d p w))"
  by (auto simp: save_to_json_def Let_def intro!: appends_emit
        split: option.split sum.split pyerr.split)

lemma app_after_text_appends:
  "appends after_text_events w (snd (app_after_text en t w))"
proof -
  let ?S = after_text_events
  have S: "\<And>x. CallGroq x \<in> ?S" "ErrCallingGroq \<in> ?S" "ErrDecodingJSON \<in> ?S" "\<And>p. SuccessSaved p \<in> ?S"
    "ErrNoTextExtracted \<in> ?S" "SuccessExtracted \<in> ?S" "\<And>d. ShowJson d \<in> ?S" "\<And>d. DownloadButton d \<in> ?S"
    by (simp_all add: after_text_events_def)
  show ?thesis
  proof (cases "t")
    case None
    then show ?thesis by (simp add: app_after_text_def appends_emit S)
  next
    case (Some tx)
    obtain info w1 where g: "extract_entities_with_groq en tx w = (info, w1)" by force
    obtain r w2 where c: "convert_llm_output_to_dict info w1 = (r, w2)" by force
    have a1: "appends ?S w w1" using groq_appends[of tx ?S w en] g S by simp
    have a2: "appends ?S w1 w2" using convert_appends[of ?S w1 info] c S by simp
    have a12: "appends ?S w w2" using a1 a2 by (rule appends_trans)
    show ?thesis
    proof (cases "tx = []")
      case True
      then show ?thesis using Some by (simp add: app_after_text_def truthy_text_def appends_emit S)
    next
      case False
      show ?thesis
      proof (cases r)
        case (Inl e)
        then show ?thesis using Some False g c a12 by (simp add: app_after_text_def truthy_text_def)
      next
        case (Inr sd)
        show ?thesis
        proof (cases sd)
          case None
          then show ?thesis using Some False g c a12 Inr by (simp add: app_after_text_def truthy_text_def)
        next
          case (Some d)
          let ?w3 = "emit (ShowJson d) (emit SuccessExtracted w2)"
          obtain r4 w4 where sj: "save_to_json d default_output_path ?w3 = (r4, w4)" by force
          have a3: "appends ?S w ?w3" using a12 by (intro appends_emit) (simp_all add: S)
          have a4: "appends ?S ?w3 w4" using save_to_json_appends[of default_output_path ?S ?w3 d] sj S by simp
          have a34: "appends ?S w w4" using a3 a4 by (rule appends_trans)
          show ?thesis using \<open>t = Some tx\<close> False g c a12 Inr Some sj a34
            by (cases r4) (simp_all add: app_after_text_def truthy_text_def Let_def appends_emit S)
        qed
      qed
    qed
  qed
qed


lemma extract_resume_text_effect:
  "\<exists>evs. extract_resume_text en w =
           (if strategy_a en = None then strategy_b en else strategy_a en,
            w\<lparr>log := log w @ CallPdfplumber # evs\<rparr>)
     \<and> set evs \<subseteq> {WarnPdfplumberFailed, WarnTryingFitz, CallFitz, WarnFitzFailed}
     \<and> (CallFitz \<in> set evs \<longleftrightarrow> strategy_a en = None)"
proof -
  obtain ea where ea: "ea \<in> {[], [WarnPdfplumberFailed]}"
    "extract_text_with_pdfplumber en w = (strategy_a en, w\<lparr>log := log w @ CallPdfplumber # ea\<rparr>)"
    using pdfplumber_effect[of en w] by blast
  let ?w1 = "w\<lparr>log := log w @ CallPdfplumber # ea\<rparr>"
  obtain eb where eb: "eb \<in> {[], [WarnFitzFailed]}"
    "extract_text_with_fitz en (emit WarnTryingFitz ?w1)
       = (strategy_b en, (emit WarnTryingFitz ?w1)\<lparr>log := log (emit WarnTryingFitz ?w1) @ CallFitz # eb\<rparr>)"
    using fitz_effect[of en "emit WarnTryingFitz ?w1"] by blast
  show ?thesis
  proof (cases "strategy_a en")
    case None
    have "extract_resume_text en w =
            (strategy_b en, w\<lparr>log := log w @ CallPdfplumber # (ea @ WarnTryingFitz # CallFitz # eb)\<rparr>)"
      using None ea(2) eb(2) by (simp add: extract_resume_text_def truthy_text_def emit_def)
    moreover have "set (ea @ WarnTryingFitz # CallFitz # eb)
        \<subseteq> {WarnPdfplumberFailed, WarnTryingFitz, CallFitz, WarnFitzFailed}"
      using ea(1) eb(1) by auto
    ultimately show ?thesis using None by (intro exI[of _ "ea @ WarnTryingFitz # CallFitz # eb"]) simp
  next
    case (Some t)
    have "truthy_text (strategy_a en)" using strategy_a_truthy[of en] Some by simp
    then have "extract_resume_text en w = (strategy_a en, ?w1)"
      using ea(2) by (simp add: extract_resume_text_def)
    then show ?thesis using Some ea(1) by (intro exI[of _ ea]) auto
  qed
qed

lemma app_after_text_None:
  "\<not> truthy_text t \<Longrightarrow> app_after_text en t w = (Inr (), emit ErrNoTextExtracted w)"
  by (simp add: app_after_text_def truthy_text_def split: option.splits)

lemma resume_text_truthy:
  "truthy_text (if strategy_a en = None then strategy_b en else strategy_a en)
     \<longleftrightarrow> \<not> (strategy_a en = None \<and> strategy_b en = None)"
  by (simp add: strategy_a_truthy strategy_b_truthy)

lemma app_main_log:
  "\<exists>rest. log (snd (app_main en (Some bytes) w)) = log w @ InfoUploaded # CallPdfplumber # rest
     \<and> CallPdfplumber \<notin> set rest
     \<and> (CallFitz \<in> set rest \<longleftrightarrow> strategy_a en = None)
     \<and> (strategy_a en = None \<and> strategy_b en = None \<longrightarrow>
          ErrNoTextExtracted \<in> set rest \<and> (\<forall>t. CallGroq t \<notin> set rest)
          \<and> fst (app_main en (Some bytes) w) = None)"
proof -
  let ?w2 = "(emit InfoUploaded w)\<lparr>files := (files (emit InfoUploaded w))(temp_path \<mapsto> bytes)\<rparr>"
  let ?t = "if strategy_a en = None then strategy_b en else strategy_a en"
  obtain evs where evs:
    "extract_resume_text en ?w2 = (?t, ?w2\<lparr>log := log ?w2 @ CallPdfplumber # evs\<rparr>)"
    "set evs \<subseteq> {WarnPdfplumberFailed, WarnTryingFitz, CallFitz, WarnFitzFailed}"
    "CallFitz \<in> set evs \<longleftrightarrow> strategy_a en = None"
    using extract_resume_text_effect[of en ?w2] by (elim exE conjE) (rule that)
  let ?w3 = "?w2\<lparr>log := log ?w2 @ CallPdfplumber # evs\<rparr>"
  obtain r w4 where at: "app_after_text en ?t ?w3 = (r, w4)" by force
  have "appends after_text_events ?w3 w4"
    using app_after_text_appends[of ?w3 en ?t] at by simp
  then obtain evs' where evs': "log w4 = log ?w3 @ evs'" "set evs' \<subseteq> after_text_events"
    by (auto simp: appends_def)
  have main: "app_main en (Some bytes) w = (case r of Inl e \<Rightarrow> (Some e, w4) | Inr u \<Rightarrow> (None, os_remove temp_path w4))"
    using evs(1) at by (simp add: app_main_def Let_def split: sum.split)
  have lg: "log (snd (app_main en (Some bytes) w)) = log w @ InfoUploaded # CallPdfplumber # (evs @ evs')"
    using main evs' by (simp add: os_remove_def split: sum.split)
  have no: "CallPdfplumber \<notin> set (evs @ evs')" "CallFitz \<in> set (evs @ evs') \<longleftrightarrow> strategy_a en = None"
    using evs(2,3) evs'(2) by (auto simp: after_text_events_def)
  have fail: "ErrNoTextExtracted \<in> set (evs @ evs') \<and> (\<forall>t. CallGroq t \<notin> set (evs @ evs'))
          \<and> fst (app_main en (Some bytes) w) = None"
    if "strategy_a en = None \<and> strategy_b en = None"
  proof -
    have "\<not> truthy_text ?t" using that by (simp add: truthy_text_def)
    then have "app_after_text en ?t ?w3 = (Inr (), emit ErrNoTextExtracted ?w3)"
      by (rule app_after_text_None)
    then have "r = Inr ()" "w4 = emit ErrNoTextExtracted ?w3" using at by simp_all
    then have "evs' = [ErrNoTextExtracted]" using evs'(1) by simp
    then show ?thesis using evs(2) main \<open>r = Inr ()\<close> by auto
  qed
  show ?thesis using lg no fail by (intro exI[of _ "evs @ evs'"]) blast
qed


lemma save_to_chromadb_appends:
  "{ErrDecodingJSON, ErrNoData, ErrFailedToParse, ErrSavingChroma} \<subseteq> S \<Longrightarrow>
   (\<And>k. WarnAlreadyExists k \<in> S) \<Longrightarrow> (\<And>k. WriteSaved k \<in> S) \<Longrightarrow>
   appends S w (save_to_chromadb_limit limit en data w)"
proof -
  assume S: "{ErrDecodingJSON, ErrNoData, ErrFailedToParse, ErrSavingChroma} \<subseteq> S"
    "\<And>k. WarnAlreadyExists k \<in> S" "\<And>k. WriteSaved k \<in> S"
  obtain r w1 where c: "convert_llm_output_to_dict (Some data) w = (r, w1)" by force
  have a1: "appends S w w1" using convert_appends[of S w "Some data"] c S by simp
  have body: "appends S w (snd (save_to_chromadb_body limit en data w))"
    using c a1 S
    by (auto simp: save_to_chromadb_body_def intro!: appends_emit
          split: sum.split option.split json.split)
  then show ?thesis using S
    by (auto simp: save_to_chromadb_limit_def intro!: appends_emit split: prod.split sum.split)
qed

lemma chroma_query_appends:
  "CallCollectionQuery \<in> S \<Longrightarrow> appends S w (snd (chroma_query en w))"
  by (auto simp: chroma_query_def Let_def intro!: appends_emit)

lemma app2_after_text_appends:
  "appends after_text_events w (snd (app2_after_text en t w))"
proof -
  let ?S = after_text_events
  have S: "\<And>x. CallGroq x \<in> ?S" "ErrCallingGroq \<in> ?S" "ErrNoTextExtracted \<in> ?S"
    "SuccessExtracted \<in> ?S" "WriteQueryResult \<in> ?S" "\<And>d. DownloadButton d \<in> ?S"
    "CallCollectionQuery \<in> ?S"
    by (simp_all add: after_text_events_def)
  show ?thesis
  proof (cases "truthy_text t")
    case False
    then show ?thesis
      by (auto simp: app2_after_text_def truthy_text_def appends_emit S split: option.split)
  next
    case True
    then obtain tx where t: "t = Some tx" "tx \<noteq> []"
      by (auto simp: truthy_text_def split: option.splits)
    obtain info w1 where g: "extract_entities_with_groq en tx w = (info, w1)" by force
    have a1: "appends ?S w w1" using groq_appends[of tx ?S w en] g S by simp
    show ?thesis
    proof (cases "truthy_text info")
      case False
      then show ?thesis using t g a1
        by (auto simp: app2_after_text_def truthy_text_def split: option.split)
    next
      case True
      then obtain i where i: "info = Some i" "i \<noteq> []"
        by (auto simp: truthy_text_def split: option.splits)
      let ?w2 = "save_to_chromadb en i (emit SuccessExtracted w1)"
      have a2: "appends ?S w (emit SuccessExtracted w1)" using a1 S by (intro appends_emit)
      have "appends ?S (emit SuccessExtracted w1) ?w2"
        unfolding save_to_chromadb_def
        by (rule save_to_chromadb_appends) (simp_all add: after_text_events_def)
      with a2 have a3: "appends ?S w ?w2" by (rule appends_trans)
      obtain r3 w3 where q: "chroma_query en ?w2 = (r3, w3)" by force
      have "appends ?S ?w2 w3" using chroma_query_appends[of ?S ?w2 en] q S by simp
      with a3 have a4: "appends ?S w w3" by (rule appends_trans)
      show ?thesis using t g i q a4
        by (cases r3) (simp_all add: app2_after_text_def truthy_text_def Let_def appends_emit S)
    qed
  qed
qed

lemma app2_after_text_None:
  "\<not> truthy_text t \<Longrightarrow> app2_after_text en t w = (Inr (), emit ErrNoTextExtracted w)"
  by (simp add: app2_after_text_def truthy_text_def split: option.splits)

lemma app2_main_log:
  "\<exists>rest. log (snd (app2_main en (Some bytes) w)) = log w @ InfoUploaded # CallPdfplumber # rest
     \<and> CallPdfplumber \<notin> set rest
     \<and> (CallFitz \<in> set rest \<longleftrightarrow> strategy_a en = None)
     \<and> (strategy_a en = None \<and> strategy_b en = None \<longrightarrow>
          ErrNoTextExtracted \<in> set rest \<and> (\<forall>t. CallGroq t \<notin> set rest)
          \<and> fst (app2_main en (Some bytes) w) = None)"
proof -
  let ?w2 = "(emit InfoUploaded w)\<lparr>files := (files (emit InfoUploaded w))(temp_path \<mapsto> bytes)\<rparr>"
  let ?t = "if strategy_a en = None then strategy_b en else strategy_a en"
  obtain evs where evs:
    "extract_resume_text en ?w2 = (?t, ?w2\<lparr>log := log ?w2 @ CallPdfplumber # evs\<rparr>)"
    "set evs \<subseteq> {WarnPdfplumberFailed, WarnTryingFitz, CallFitz, WarnFitzFailed}"
    "CallFitz \<in> set evs \<longleftrightarrow> strategy_a en = None"
    using extract_resume_text_effect[of en ?w2] by (elim exE conjE) (rule that)
  let ?w3 = "?w2\<lparr>log := log ?w2 @ CallPdfplumber # evs\<rparr>"
  obtain r w4 where at: "app2_after_text en ?t ?w3 = (r, w4)" by force
  have "appends after_text_events ?w3 w4"
    using app2_after_text_appends[of ?w3 en ?t] at by simp
  then obtain evs' where evs': "log w4 = log ?w3 @ evs'" "set evs' \<subseteq> after_text_events"
    by (auto simp: appends_def)
  have main: "app2_main en (Some bytes) w = (case r of Inl e \<Rightarrow> (Some e, w4) | Inr u \<Rightarrow> (None, os_remove temp_path w4))"
    using evs(1) at by (simp add: app2_main_def Let_def split: sum.split)
  have lg: "log (snd (app2_main en (Some bytes) w)) = log w @ InfoUploaded # CallPdfplumber # (evs @ evs')"
    using main evs' by (simp add: os_remove_def split: sum.split)
  have no: "CallPdfplumber \<notin> set (evs @ evs')" "CallFitz \<in> set (evs @ evs') \<longleftrightarrow> strategy_a en = None"
    using evs(2,3) evs'(2) by (auto simp: after_text_events_def)
  have fail: "ErrNoTextExtracted \<in> set (evs @ evs') \<and> (\<forall>t. CallGroq t \<notin> set (evs @ evs'))
          \<and> fst (app2_main en (Some bytes) w) = None"
    if "strategy_a en = None \<and> strategy_b en = None"
  proof -
    have "\<not> truthy_text ?t" using that by (simp add: truthy_text_def)
    then have "app2_after_text en ?t ?w3 = (Inr (), emit ErrNoTextExtracted ?w3)"
      by (rule app2_after_text_None)
    then have "r = Inr ()" "w4 = emit ErrNoTextExtracted ?w3" using at by simp_all
    then have "evs' = [ErrNoTextExtracted]" using evs'(1) by simp
    then show ?thesis using evs(2) main \<open>r = Inr ()\<close> by auto
  qed
  show ?thesis using lg no fail by (intro exI[of _ "evs @ evs'"]) blast
qed

subsection \<open>The fallback policy of text extraction\<close>

text \<open>
  Claim C2.  In both pipelines, for every uploaded document: the first thing that happens
  after the upload message is the attempt with strategy A (pdfplumber), and A is not
  attempted again; strategy B (fitz) is attempted if and only if A returned no text
  (it raised, or its text was empty or white space); and when neither strategy returns
  text, the pipeline reports that no text was extracted, never calls the model, and ends
  without an exception.
\<close>

theorem fallback_policy:
  "(\<exists>rest. log (snd (app_main en (Some bytes) w)) = log w @ InfoUploaded # CallPdfplumber # rest
      \<and> CallPdfplumber \<notin> set rest
      \<and> (CallFitz \<in> set rest \<longleftrightarrow> strategy_a en = None)
      \<and> (strategy_a en = None \<and> strategy_b en = None \<longrightarrow>
           ErrNoTextExtracted \<in> set rest \<and> (\<forall>t. CallGroq t \<notin> set rest)
           \<and> fst (app_main en (Some bytes) w) = None))
   \<and> (\<exists>rest. log (snd (app2_main en (Some bytes) w)) = log w @ InfoUploaded # CallPdfplumber # rest
      \<and> CallPdfplumber \<notin> set rest
      \<and> (CallFitz \<in> set rest \<longleftrightarrow> strategy_a en = None)
      \<and> (strategy_a en = None \<and> strategy_b en = None \<longrightarrow>
           ErrNoTextExtracted \<in> set rest \<and> (\<forall>t. CallGroq t \<notin> set rest)
           \<and> fst (app2_main en (Some bytes) w) = None))"
  using app_main_log [of en bytes w] app2_main_log [of en bytes w] by (rule conjI)

lemma strategies_no_text: "strategy_a env_no_text = None" "strategy_b env_no_text = None"
  by (simp_all add: strategy_a_def strategy_b_def env_no_text_def extract_text_with_pdfplumber_def
        extract_text_with_fitz_def Let_def strip_def)

theorem fallback_policy_witness:
  "strategy_a env_no_text = None \<and> strategy_b env_no_text = None
   \<and> (\<exists>rest. log (snd (app_main env_no_text (Some ''%PDF'') world0)) = InfoUploaded # CallPdfplumber # rest
        \<and> CallFitz \<in> set rest \<and> ErrNoTextExtracted \<in> set rest \<and> (\<forall>t. CallGroq t \<notin> set rest))
   \<and> fst (app_main env_no_text (Some ''%PDF'') world0) = None
   \<and> (\<exists>rest. log (snd (app2_main env_no_text (Some ''%PDF'') world0)) = InfoUploaded # CallPdfplumber # rest
        \<and> CallFitz \<in> set rest \<and> ErrNoTextExtracted \<in> set rest \<and> (\<forall>t. CallGroq t \<notin> set rest))
   \<and> fst (app2_main env_no_text (Some ''%PDF'') world0) = None"
proof -
  have l0: "log world0 = []" by (simp add: world0_def)
  from fallback_policy [of env_no_text "''%PDF''" world0] strategies_no_text l0
  show ?thesis by auto
qed

subsection \<open>The staged copy of the upload\<close>

text \<open>
  Claim C9 does not hold for \<open>app.py\<close>.  The removal of the staged file is the last
  statement of the script and is not protected by \<open>try ... finally\<close>.  When the model call
  fails, \<open>extract_entities_with_groq\<close> returns \<open>None\<close>, \<open>re.sub\<close> raises \<open>TypeError\<close> inside
  \<open>convert_llm_output_to_dict\<close>, which catches \<open>JSONDecodeError\<close> only, and the script ends
  with the staged file still on disk.
\<close>

theorem staged_file_left_when_model_call_fails:
  "fst (app_main env_groq_down (Some ''%PDF'') world0) = Some TypeError
   \<and> files (snd (app_main env_groq_down (Some ''%PDF'') world0)) temp_path = Some ''%PDF''"
  by (simp add: app_main_def extract_resume_text_def extract_text_with_pdfplumber_def
        app_after_text_def extract_entities_with_groq_def convert_llm_output_to_dict_def
        env_groq_down_def world0_def truthy_text_def emit_def Let_def strip_def is_space_def)

subsection \<open>Pages that fail\<close>

lemma join_pages_Raises: "join_pages ps = Raises \<longleftrightarrow> Raises \<in> set ps"
proof (induction ps)
  case Nil
  then show ?case by simp
next
  case (Cons p ps)
  then show ?case by (cases p; cases "join_pages ps") auto
qed

lemma or_empty_Raises: "or_empty p = Raises \<longleftrightarrow> p = Raises"
  by (cases p rule: or_empty.cases) simp_all


lemma join_or_empty_Raises: "join_pages (map or_empty ps) = Raises \<longleftrightarrow> Raises \<in> set ps"
proof -
  have "join_pages (map or_empty ps) = Raises \<longleftrightarrow> (\<exists>p \<in> set ps. or_empty p = Raises)"
    unfolding join_pages_Raises by (simp add: image_iff eq_commute [of Raises])
  also have "\<dots> \<longleftrightarrow> (\<exists>p \<in> set ps. p = Raises)"
    unfolding or_empty_Raises ..
  also have "\<dots> \<longleftrightarrow> Raises \<in> set ps" by simp
  finally show ?thesis .
qed

lemma join_or_empty_Returns:
  "Raises \<notin> set ps \<Longrightarrow> join_pages (map or_empty ps) = Returns (concat (map contribution ps))"
proof (induction ps)
  case Nil
  then show ?case by simp
next
  case (Cons p ps)
  then have ih: "join_pages (map or_empty ps) = Returns (concat (map contribution ps))" by simp
  from Cons.prems have "p \<noteq> Raises" by auto
  then show ?case using ih by (cases p rule: or_empty.cases) simp_all
qed

text \<open>
  Claim C7 does not hold as stated: when the extraction of a page raises, the exception
  leaves the generator, the enclosing \<open>try\<close> of the strategy catches it, and the strategy
  returns no text at all, although the first and the third page have text.
\<close>

theorem page_failure_aborts_strategy:
  "fst (extract_text_with_pdfplumber env_page_raises world0) = None
   \<and> fst (extract_text_with_fitz env_page_raises world0) = None"
  by (simp add: extract_text_with_pdfplumber_def extract_text_with_fitz_def env_page_raises_def Let_def)

text \<open>
  Claim C7 as amended.  In strategy A a page whose \<open>extract_text\<close> returns \<open>None\<close>
  contributes the empty string, and when no page raises the text is the concatenation
  of the contributions in page order (kept if it is not white space only).  In both
  strategies a page whose extraction raises ends the strategy: it emits its warning and
  returns no text.
\<close>

theorem per_page_contributions:
  "(pdfplumber_pages en = Returns ps \<and> Raises \<notin> set ps \<longrightarrow>
      extract_text_with_pdfplumber en w =
        (if strip (concat (map contribution ps)) \<noteq> [] then Some (concat (map contribution ps)) else None,
         emit CallPdfplumber w))
   \<and> contribution (Returns None) = []
   \<and> (pdfplumber_pages en = Returns ps \<and> Raises \<in> set ps \<longrightarrow>
      extract_text_with_pdfplumber en w = (None, emit WarnPdfplumberFailed (emit CallPdfplumber w)))
   \<and> (fitz_pages en = Returns qs \<and> Raises \<in> set qs \<longrightarrow>
      extract_text_with_fitz en w = (None, emit WarnFitzFailed (emit CallFitz w)))"
proof -
  have a: "extract_text_with_pdfplumber en w =
        (if strip (concat (map contribution ps)) \<noteq> [] then Some (concat (map contribution ps)) else None,
         emit CallPdfplumber w)" if "pdfplumber_pages en = Returns ps" "Raises \<notin> set ps"
    using that by (simp add: extract_text_with_pdfplumber_def Let_def join_or_empty_Returns)
  have b: "extract_text_with_pdfplumber en w = (None, emit WarnPdfplumberFailed (emit CallPdfplumber w))"
    if "pdfplumber_pages en = Returns ps" "Raises \<in> set ps"
  proof -
    have "join_pages (map or_empty ps) = Raises" using that(2) by (simp add: join_or_empty_Raises)
    then show ?thesis using that(1) by (simp add: extract_text_with_pdfplumber_def Let_def)
  qed
  have c: "extract_text_with_fitz en w = (None, emit WarnFitzFailed (emit CallFitz w))"
    if "fitz_pages en = Returns qs" "Raises \<in> set qs"
  proof -
    have "join_pages qs = Raises" using that(2) by (simp add: join_pages_Raises)
    then show ?thesis using that(1) by (simp add: extract_text_with_fitz_def Let_def)
  qed
  show ?thesis using a b c by simp
qed

theorem per_page_contributions_witness:
  "fst (extract_text_with_pdfplumber env_blank_page world0) = Some ''ab''
   \<and> extract_text_with_pdfplumber env_page_raises world0
       = (None, emit WarnPdfplumberFailed (emit CallPdfplumber world0))
   \<and> extract_text_with_fitz env_page_raises world0 = (None, emit WarnFitzFailed (emit CallFitz world0))"
proof -
  have s: "strip ''ab'' \<noteq> []" by (simp add: strip_def is_space_def)
  have 1: "pdfplumber_pages env_blank_page = Returns [Returns (Some ''a''), Returns None, Returns (Some ''b'')]
       \<and> Raises \<notin> set [Returns (Some ''a''), Returns None, Returns (Some ''b'')]"
    by (simp add: env_blank_page_def)
  have 2: "pdfplumber_pages env_page_raises = Returns [Returns (Some ''a''), Raises, Returns (Some ''b'')]
       \<and> Raises \<in> set [Returns (Some ''a''), Raises, Returns (Some ''b'')]"
    by (simp add: env_page_raises_def)
  have 3: "fitz_pages env_page_raises = Returns [Returns ''a'', Raises, Returns ''b'']
       \<and> Raises \<in> set [Returns ''a'', Raises, Returns ''b'']"
    by (simp add: env_page_raises_def)
  from per_page_contributions [of env_blank_page "[Returns (Some ''a''), Returns None, Returns (Some ''b'')]" world0]
    1 s have a: "fst (extract_text_with_pdfplumber env_blank_page world0) = Some ''ab''" by simp
  from per_page_contributions [of env_page_raises "[Returns (Some ''a''), Raises, Returns (Some ''b'')]" world0
       "[Returns ''a'', Raises, Returns ''b'']"] 2 3
  have b: "extract_text_with_pdfplumber env_page_raises world0
       = (None, emit WarnPdfplumberFailed (emit CallPdfplumber world0))
   \<and> extract_text_with_fitz env_page_raises world0 = (None, emit WarnFitzFailed (emit CallFitz world0))"
    by blast
  show ?thesis using a b by simp
qed

subsection \<open>What the pipelines do with the model's answer\<close>

lemma strategy_a_Some:
  assumes "strategy_a en = Some tx"
  shows "extract_text_with_pdfplumber en w = (Some tx, emit CallPdfplumber w)" and "tx \<noteq> []"
proof -
  from assms obtain ps where ps: "pdfplumber_pages en = Returns ps"
    "join_pages (map or_empty ps) = Returns tx" "strip tx \<noteq> []"
    by (auto simp: strategy_a_def extract_text_with_pdfplumber_def Let_def
          split: attempt.splits if_splits)
  then show "extract_text_with_pdfplumber en w = (Some tx, emit CallPdfplumber w)"
    by (simp add: extract_text_with_pdfplumber_def Let_def)
  from ps(3) show "tx \<noteq> []" by (auto simp: strip_def)
qed

lemma extract_resume_text_a:
  assumes "strategy_a en = Some tx"
  shows "extract_resume_text en w = (Some tx, emit CallPdfplumber w)"
  using strategy_a_Some(1) [OF assms, of w] strategy_a_Some(2) [OF assms]
  by (simp add: extract_resume_text_def truthy_text_def)

lemma loads_empty: "loads [] = Inl JSONDecodeError"
  by (simp add: loads_def skip_ws_def)

lemma re_sub_Nil: "re_sub [] = []"
  by (simp add: re_sub.simps)

lemma strip_Nil: "strip [] = []"
  by (simp add: strip_def)


lemma convert_value:
  "loads (strip (re_sub out)) = Inr v \<Longrightarrow>
   convert_llm_output_to_dict (Some out) w = (Inr (Some v), w)"
  by (simp add: convert_llm_output_to_dict_def)

lemma parsed_nonempty: "loads (strip (re_sub out)) = Inr v \<Longrightarrow> out \<noteq> []"
  by (auto simp: re_sub_Nil strip_Nil loads_empty)

lemma groq_returns:
  "groq en tx = Returns out \<Longrightarrow> extract_entities_with_groq en tx w = (Some out, emit (CallGroq tx) w)"
  by (simp add: extract_entities_with_groq_def Let_def)

lemma strategy_a_env_answer: "strategy_a (env_answer out) = Some ''John Doe''"
  by (simp add: strategy_a_def env_answer_def extract_text_with_pdfplumber_def Let_def
        strip_def is_space_def)

lemma groq_env_answer: "groq (env_answer out) t = Returns out"
  by (simp add: env_answer_def)

lemma loads_empty_object: "loads (strip (re_sub ''{}'')) = Inr (JObj [])"
  by code_simp

text \<open>
  Claim C10.  When the fence-stripped, trimmed answer parses to the empty object, the
  flat-file pipeline does nothing after the model call (no success message, no display,
  no file written, no download button) and ends normally with the staged file removed;
  the indexed-store sink reports the parse failure and leaves the world as it is.
\<close>

theorem empty_object_treated_as_absent:
  assumes "loads (strip (re_sub out)) = Inr (JObj [])"
  shows "(strategy_a en = Some tx \<and> groq en tx = Returns out \<longrightarrow>
           app_main en (Some bytes) w =
             (None, w\<lparr>files := (files w)(temp_path := None),
                       log := log w @ [InfoUploaded, CallPdfplumber, CallGroq tx]\<rparr>))
       \<and> save_to_chromadb en out w = emit ErrFailedToParse w"
proof -
  have ne: "out \<noteq> []" using assms by (rule parsed_nonempty)
  have c: "convert_llm_output_to_dict (Some out) w' = (Inr (Some (JObj [])), w')" for w'
    using assms by (rule convert_value)
  have 1: "app_main en (Some bytes) w =
             (None, w\<lparr>files := (files w)(temp_path := None),
                       log := log w @ [InfoUploaded, CallPdfplumber, CallGroq tx]\<rparr>)"
    if a: "strategy_a en = Some tx" and g: "groq en tx = Returns out"
  proof -
    have "tx \<noteq> []" using a by (rule strategy_a_Some(2))
    then have "app_after_text en (Some tx) w' = (Inr (), emit (CallGroq tx) w')" for w'
      using groq_returns [OF g] c by (simp add: app_after_text_def truthy_text_def)
    then show ?thesis
      using extract_resume_text_a [OF a]
      by (simp add: app_main_def Let_def os_remove_def emit_def)
  qed
  have 2: "save_to_chromadb en out w = emit ErrFailedToParse w"
    using ne c
    by (simp add: save_to_chromadb_def save_to_chromadb_limit_def save_to_chromadb_body_def)
  show ?thesis using 1 2 by blast
qed


theorem empty_object_treated_as_absent_witness:
  "loads (strip (re_sub ''{}'')) = Inr (JObj [])
   \<and> app_main (env_answer ''{}'') (Some ''%PDF'') world0 =
        (None, world0\<lparr>files := (files world0)(temp_path := None),
                  log := log world0 @ [InfoUploaded, CallPdfplumber, CallGroq ''John Doe'']\<rparr>)
   \<and> save_to_chromadb (env_answer ''{}'') ''{}'' world0 = emit ErrFailedToParse world0"
  using empty_object_treated_as_absent [OF loads_empty_object, of "env_answer ''{}''" "''John Doe''"
      "''%PDF''" world0]
    strategy_a_env_answer [of "''{}''"] groq_env_answer [of "''{}''" "''John Doe''"] loads_empty_object
  by simp






subsection \<open>The derived key\<close>

lemma lower_char_underscore: "lower_char (CHR ''_'') = CHR ''_''"
  by (simp add: lower_char_def)

lemma lower_replace_space:
  "lower (replace_space n) = map (\<lambda>c. if c = CHR '' '' then CHR ''_'' else lower_char c) n"
  by (simp add: lower_def replace_space_def lower_char_underscore)

lemma lower_char_not_space: "c \<noteq> CHR '' '' \<Longrightarrow> lower_char c \<noteq> CHR '' ''"
proof
  assume c: "c \<noteq> CHR '' ''" and l: "lower_char c = CHR '' ''"
  let ?n = "of_char c :: nat"
  have lt: "?n < 256" by simp
  show False
  proof (cases "(65 \<le> ?n \<and> ?n \<le> 90) \<or> (192 \<le> ?n \<and> ?n \<le> 222 \<and> ?n \<noteq> 215)")
    case True
    then have "lower_char c = char_of (?n + 32)" by (simp add: lower_char_def Let_def)
    then have "(of_char (lower_char c) :: nat) = (?n + 32) mod 256" by simp
    moreover have "(?n + 32) mod 256 = ?n + 32" using True by auto
    ultimately have "(of_char (lower_char c) :: nat) \<noteq> 32" using True by auto
    then show False using l by simp
  next
    case False
    then have "lower_char c = c" by (auto simp: lower_char_def Let_def)
    then show False using c l by simp
  qed
qed

lemma key_has_no_space: "CHR '' '' \<notin> set (lower (replace_space n))"
proof
  assume "CHR '' '' \<in> set (lower (replace_space n))"
  then have "CHR '' '' \<in> (\<lambda>c. if c = CHR '' '' then CHR ''_'' else lower_char c) ` set n"
    unfolding lower_replace_space by simp
  then obtain c where c: "CHR '' '' = (if c = CHR '' '' then CHR ''_'' else lower_char c)"
    by (rule imageE)
  show False
  proof (cases "c = CHR '' ''")
    case True
    then show False using c by simp
  next
    case False
    then have "lower_char c \<noteq> CHR '' ''" by (rule lower_char_not_space)
    then show False using c False by (simp split: if_splits)
  qed
qed

text \<open>
  Claim C8 does not hold for every record: the values of a record may be sequences or
  nested mappings, and when the \<open>name\<close> field is not a string, \<open>replace\<close> raises
  \<open>AttributeError\<close> and no key is derived.
\<close>

theorem name_not_a_string_gives_no_key:
  "candidate_name (JObj [(''name'', JArr [JStr ''John'', JStr ''Doe''])]) = Inl AttributeError"
  by (simp add: candidate_name_def dict_get_name_def)

text \<open>
  Claim C8 as amended.  For a record without a \<open>name\<close> field the key is \<open>unknown\<close>.  For a
  record whose \<open>name\<close> field is a string the key is that string with every space replaced
  by an underscore and every other character lower-cased, so the key has no space; the
  name \<open>John Doe\<close> gives \<open>john_doe\<close>.  For a record whose \<open>name\<close> field is not a string the
  derivation raises \<open>AttributeError\<close>.
\<close>

theorem candidate_key_derivation:
  "(map_of kvs ''name'' = None \<longrightarrow> candidate_name (JObj kvs) = Inr ''unknown'')
   \<and> (map_of kvs ''name'' = Some (JStr n) \<longrightarrow>
        candidate_name (JObj kvs)
          = Inr (map (\<lambda>c. if c = CHR '' '' then CHR ''_'' else lower_char c) n)
        \<and> CHR '' '' \<notin> set (map (\<lambda>c. if c = CHR '' '' then CHR ''_'' else lower_char c) n))
   \<and> (map_of kvs ''name'' = Some v \<and> (\<forall>s. v \<noteq> JStr s) \<longrightarrow>
        candidate_name (JObj kvs) = Inl AttributeError)
   \<and> candidate_name (JObj [(''name'', JStr ''John Doe'')]) = Inr ''john_doe''"
proof -
  have 1: "candidate_name (JObj kvs) = Inr ''unknown''" if "map_of kvs ''name'' = None"
  proof -
    have "lower (replace_space ''Unknown'') = ''unknown''" by code_simp
    then show ?thesis using that by (simp add: candidate_name_def dict_get_name_def)
  qed
  have 2: "candidate_name (JObj kvs)
          = Inr (map (\<lambda>c. if c = CHR '' '' then CHR ''_'' else lower_char c) n)"
    if "map_of kvs ''name'' = Some (JStr n)"
    using that by (simp add: candidate_name_def dict_get_name_def lower_replace_space)
  have 3: "CHR '' '' \<notin> set (map (\<lambda>c. if c = CHR '' '' then CHR ''_'' else lower_char c) n)"
    unfolding lower_replace_space [symmetric] by (rule key_has_no_space)
  have 4: "candidate_name (JObj kvs) = Inl AttributeError"
    if "map_of kvs ''name'' = Some v" "\<forall>s. v \<noteq> JStr s"
    using that by (cases v) (simp_all add: candidate_name_def dict_get_name_def)
  have 5: "candidate_name (JObj [(''name'', JStr ''John Doe'')]) = Inr ''john_doe''"
  proof -
    have "lower (replace_space ''John Doe'') = ''john_doe''" by code_simp
    then show ?thesis by (simp add: candidate_name_def dict_get_name_def)
  qed
  show ?thesis
  proof (intro conjI impI)
    show "candidate_name (JObj kvs) = Inr ''unknown''" if "map_of kvs ''name'' = None"
      using that by (rule 1)
    show "candidate_name (JObj kvs)
          = Inr (map (\<lambda>c. if c = CHR '' '' then CHR ''_'' else lower_char c) n)"
      if "map_of kvs ''name'' = Some (JStr n)" using that by (rule 2)
    show "CHR '' '' \<notin> set (map (\<lambda>c. if c = CHR '' '' then CHR ''_'' else lower_char c) n)"
      by (rule 3)
    show "candidate_name (JObj kvs) = Inl AttributeError"
      if "map_of kvs ''name'' = Some v \<and> (\<forall>s. v \<noteq> JStr s)"
      using that 4 by simp
    show "candidate_name (JObj [(''name'', JStr ''John Doe'')]) = Inr ''john_doe''" by (rule 5)
  qed
qed

theorem candidate_key_derivation_witness:
  "map_of [(''name'', JStr ''Ada Lovelace'')] ''name'' = Some (JStr ''Ada Lovelace'')
   \<and> candidate_name (JObj [(''name'', JStr ''Ada Lovelace'')]) = Inr ''ada_lovelace''
   \<and> map_of [(''skills'', JArr [])] ''name'' = None
   \<and> candidate_name (JObj [(''skills'', JArr [])]) = Inr ''unknown''
   \<and> candidate_name (JObj [(''name'', JNull)]) = Inl AttributeError"
proof -
  have a: "map_of [(''name'', JStr ''Ada Lovelace'')] ''name'' = Some (JStr ''Ada Lovelace'')" by simp
  have b: "map_of [(''skills'', JArr [])] ''name'' = None" by simp
  have c: "map_of [(''name'', JNull)] ''name'' = Some JNull \<and> (\<forall>s. JNull \<noteq> JStr s)" by simp
  have l: "map (\<lambda>c. if c = CHR '' '' then CHR ''_'' else lower_char c) ''Ada Lovelace'' = ''ada_lovelace''"
  proof -
    have "lower (replace_space ''Ada Lovelace'') = ''ada_lovelace''" by code_simp
    then show ?thesis by (simp only: lower_replace_space)
  qed
  from candidate_key_derivation [of "[(''name'', JStr ''Ada Lovelace'')]" "''Ada Lovelace''"] a l
  have 1: "candidate_name (JObj [(''name'', JStr ''Ada Lovelace'')]) = Inr ''ada_lovelace''" by simp
  from candidate_key_derivation [of "[(''skills'', JArr [])]"] b
  have 2: "candidate_name (JObj [(''skills'', JArr [])]) = Inr ''unknown''" by simp
  from candidate_key_derivation [of "[(''name'', JNull)]" _ JNull] c
  have 3: "candidate_name (JObj [(''name'', JNull)]) = Inl AttributeError" by simp
  show ?thesis using a b 1 2 3 by simp
qed

subsection \<open>Deduplication in the indexed store\<close>

text \<open>
  What holds of \<open>save_to_chromadb\<close> for every collection: the identifiers stay distinct
  (the store itself refuses a second entry under a key), and a key that is among the
  identifiers \<open>peek\<close> returns is reported as a duplicate with the world otherwise
  unchanged.
\<close>

lemma convert_collection:
  "collection (snd (convert_llm_output_to_dict out w)) = collection w"
  by (simp add: convert_llm_output_to_dict_def split: option.split sum.split pyerr.split)

lemma collection_add_cases:
  "collection_add en e c = Inl LibraryError \<or> collection_add en e c = Inr c
   \<or> (entry_id e \<notin> set (map entry_id c) \<and> collection_add en e c = Inr (c @ [e]))"
  by (simp add: collection_add_def)

lemma upsert_collection:
  "collection (save_to_chromadb_limit limit en data w) = collection w
   \<or> (\<exists>e. entry_id e \<notin> set (map entry_id (collection w))
        \<and> collection (save_to_chromadb_limit limit en data w) = collection w @ [e])"
proof -
  obtain r w1 where c: "convert_llm_output_to_dict (Some data) w = (r, w1)" by force
  have w1: "collection w1 = collection w" using convert_collection [of "Some data" w] c by simp
  show ?thesis
  proof (cases "\<exists>d cand name. data \<noteq> [] \<and> r = Inr (Some d) \<and> truthy d \<and> candidate_name d = Inr cand
      \<and> cand \<notin> set (peek_ids limit (collection w1)) \<and> dict_get_name d = Inr (JStr name)")
    case True
    then obtain d cand name where h: "data \<noteq> []" "r = Inr (Some d)" "truthy d"
      "candidate_name d = Inr cand" "cand \<notin> set (peek_ids limit (collection w1))"
      "dict_get_name d = Inr (JStr name)" by blast
    let ?e = "\<lparr>entry_id = cand, document = dumps d, metadata_name = name\<rparr>"
    from collection_add_cases [of en ?e "collection w1"] show ?thesis
    proof (elim disjE conjE)
      assume "collection_add en ?e (collection w1) = Inl LibraryError"
      then show ?thesis using c h w1
        by (simp add: save_to_chromadb_limit_def save_to_chromadb_body_def)
    next
      assume "collection_add en ?e (collection w1) = Inr (collection w1)"
      then show ?thesis using c h w1
        by (simp add: save_to_chromadb_limit_def save_to_chromadb_body_def)
    next
      assume "entry_id ?e \<notin> set (map entry_id (collection w1))"
        "collection_add en ?e (collection w1) = Inr (collection w1 @ [?e])"
      then have "entry_id ?e \<notin> set (map entry_id (collection w))
        \<and> collection (save_to_chromadb_limit limit en data w) = collection w @ [?e]" using c h w1
        by (simp add: save_to_chromadb_limit_def save_to_chromadb_body_def)
      then show ?thesis by blast
    qed
  next
    case False
    then have "collection (save_to_chromadb_limit limit en data w) = collection w"
      using c w1
      by (auto simp: save_to_chromadb_limit_def save_to_chromadb_body_def
            split: sum.splits option.splits json.splits)
    then show ?thesis by simp
  qed
qed

lemma upsert_keeps_ids_distinct:
  assumes "distinct (map entry_id (collection w))"
  shows "distinct (map entry_id (collection (save_to_chromadb_limit limit en data w)))"
  using upsert_collection [of limit en data w] assms by auto

lemma upsert_skips_peeked_key:
  assumes "loads (strip (re_sub data)) = Inr d" "truthy d" "candidate_name d = Inr cand"
    "cand \<in> set (peek_ids limit (collection w))"
  shows "save_to_chromadb_limit limit en data w = emit (WarnAlreadyExists cand) w"
proof -
  have "data \<noteq> []" using assms(1) by (rule parsed_nonempty)
  moreover have "convert_llm_output_to_dict (Some data) w = (Inr (Some d), w)"
    using assms(1) by (rule convert_value)
  ultimately show ?thesis using assms(2-4)
    by (simp add: save_to_chromadb_limit_def save_to_chromadb_body_def)
qed

lemma loads_john_doe:
  "loads (strip (re_sub john_doe_response)) = Inr (JObj [(''name'', JStr ''John Doe'')])"
  unfolding john_doe_response_def by code_simp

lemma key_john_doe: "candidate_name (JObj [(''name'', JStr ''John Doe'')]) = Inr ''john_doe''"
proof -
  have "lower (replace_space ''John Doe'') = ''john_doe''" by code_simp
  then show ?thesis by (simp add: candidate_name_def dict_get_name_def)
qed

lemma peek_world11: "''john_doe'' \<notin> set (peek_ids default_peek_limit (collection world11))"
  by (simp add: peek_ids_def default_peek_limit_def world11_def eleven_ids_def entry_of_def)

lemma ids_world11: "map entry_id (collection world11) = eleven_ids"
  by (simp add: world11_def eleven_ids_def entry_of_def)

text \<open>
  Claim C1 does not hold of the code.  \<open>peek()\<close> returns the first ten entries only, so a
  key held by the eleventh entry is not among \<open>existing_ids\<close>: the sink does not report
  the duplicate but calls \<open>collection.add\<close> with the key the collection already holds,
  and then reports either an error or a successful save, depending on what the library
  does with the repeated identifier.
\<close>

theorem duplicate_beyond_peek_not_reported:
  "''john_doe'' \<in> set (map entry_id (collection world11))
   \<and> log (save_to_chromadb en john_doe_response world11)
        = [if add_existing_raises en then ErrSavingChroma else WriteSaved ''john_doe'']
   \<and> WarnAlreadyExists ''john_doe'' \<notin> set (log (save_to_chromadb en john_doe_response world11))"
proof -
  have ne: "john_doe_response \<noteq> []" by (simp add: john_doe_response_def)
  have c: "convert_llm_output_to_dict (Some john_doe_response) world11
      = (Inr (Some (JObj [(''name'', JStr ''John Doe'')])), world11)"
    using loads_john_doe by (simp add: convert_llm_output_to_dict_def)
  have m: "''john_doe'' \<in> set (map entry_id (collection world11))"
    unfolding ids_world11 by (simp add: eleven_ids_def)
  have l0: "log world11 = []" by (simp add: world11_def)
  have "log (save_to_chromadb en john_doe_response world11)
        = [if add_existing_raises en then ErrSavingChroma else WriteSaved ''john_doe'']"
    using ne c key_john_doe peek_world11 m l0
    by (simp add: save_to_chromadb_def save_to_chromadb_limit_def save_to_chromadb_body_def
          collection_add_def dict_get_name_def)
  then show ?thesis using m by simp
qed

subsection \<open>The decoder reads what the encoder writes\<close>


lemma hex_val_hex_digit: "k < 16 \<Longrightarrow> hex_val (hex_digit k) = Some k"
  by (auto simp: hex_val_def hex_digit_def Let_def)

lemma hex_val_zero: "hex_val (CHR ''0'') = Some 0"
  by (simp add: hex_val_def)

lemma decode_u_escape:
  "decode_u [CHR ''0'', CHR ''0'', hex_digit (of_char c div 16), hex_digit (of_char c mod 16)] = Inr c"
proof -
  let ?n = "of_char c :: nat"
  have lt: "?n < 256" by simp
  then have d: "?n div 16 < 16" by arith
  have m: "?n mod 16 < 16" by simp
  have "((0 * 16 + 0) * 16 + ?n div 16) * 16 + ?n mod 16 = ?n" by simp
  then show ?thesis
    using lt by (simp add: decode_u_def hex_val_zero hex_val_hex_digit [OF d] hex_val_hex_digit [OF m])
qed

lemma cons_parsed_Inr: "cons_parsed c (Inr (s, r)) = Inr (c # s, r)"
  by (simp add: cons_parsed_def)

lemma scanstring_escape_char:
  "scanstring rest = Inr (s, r) \<Longrightarrow> scanstring (escape_char c @ rest) = Inr (c # s, r)"
proof -
  assume r: "scanstring rest = Inr (s, r)"
  let ?n = "of_char c :: nat"
  consider (q) "c = CHR 0x22" | (b) "c = CHR 0x5C" | (n) "c = CHR 0x0A" | (r) "c = CHR 0x0D"
    | (t) "c = CHR 0x09" | (bs) "c = CHR 0x08" | (f) "c = CHR 0x0C"
    | (u) "c \<notin> {CHR 0x22, CHR 0x5C, CHR 0x0A, CHR 0x0D, CHR 0x09, CHR 0x08, CHR 0x0C}" "?n < 32 \<or> ?n > 126"
    | (p) "c \<notin> {CHR 0x22, CHR 0x5C, CHR 0x0A, CHR 0x0D, CHR 0x09, CHR 0x08, CHR 0x0C}" "\<not> (?n < 32 \<or> ?n > 126)"
    by blast
  then show ?thesis
  proof cases
    case q then show ?thesis using r by (simp add: escape_char_def unescape_def cons_parsed_Inr)
  next
    case b then show ?thesis using r by (simp add: escape_char_def unescape_def cons_parsed_Inr)
  next
    case n then show ?thesis using r by (simp add: escape_char_def unescape_def cons_parsed_Inr)
  next
    case r then show ?thesis using \<open>scanstring rest = Inr (s, r)\<close>
      by (simp add: escape_char_def unescape_def cons_parsed_Inr)
  next
    case t then show ?thesis using r by (simp add: escape_char_def unescape_def cons_parsed_Inr)
  next
    case bs then show ?thesis using r by (simp add: escape_char_def unescape_def cons_parsed_Inr)
  next
    case f then show ?thesis using r by (simp add: escape_char_def unescape_def cons_parsed_Inr)
  next
    case u
    then have e: "escape_char c = [CHR 0x5C, CHR ''u'', CHR ''0'', CHR ''0'',
         hex_digit (?n div 16), hex_digit (?n mod 16)]"
      by (simp add: escape_char_def)
    show ?thesis unfolding e using r by (simp add: decode_u_escape cons_parsed_Inr)
  next
    case p
    then have e: "escape_char c = [c]" by (simp add: escape_char_def)
    show ?thesis unfolding e using r p by (simp add: cons_parsed_Inr)
  qed
qed

lemma scanstring_body:
  "scanstring (concat (map escape_char s) @ CHR 0x22 # rest) = Inr (s, rest)"
  by (induction s) (simp_all add: scanstring_escape_char)

lemma scanstring_encode:
  "scanstring (tl (encode_string s) @ rest) = Inr (s, rest)"
  using scanstring_body [of s rest] by (simp add: encode_string_def)











lemma encode_string_form: "encode_string s = CHR 0x22 # tl (encode_string s)"
  by (simp add: encode_string_def)


































lemma cost_pos: "0 < cost v"
  by (cases v) simp_all







subsection \<open>The flat-file archive\<close>







subsection \<open>Fence markers\<close>

















subsection \<open>Normalizing a serialized record\<close>








end
